theory Spec2Isabelle
  imports Main
begin

section \<open>ShowQuickCommitDetailsCommand: data model\<close>

text \<open>
  The embedding follows \<^verbatim>\<open>src/commands/showQuickCommitDetails.ts\<close>.
  Objects that the command writes to (the arguments object and commit objects) live in
  an explicit store and are passed by address, so that aliasing between the caller's
  objects, the objects returned by the git service and the command's own copy is
  visible. Objects the command only reads (logs, quick pick items, uris) are values.
  Every call of a collaborator is recorded in a trace of events.
\<close>

type_synonym addr = nat

text \<open>A thrown value, and an opaque value returned by a dispatched action or a message.\<close>

datatype exn = Exn string

datatype val = Val string

text \<open>
  What a call of a promise-returning collaborator does: it throws synchronously, it
  returns a promise that rejects, or it returns a promise that resolves.
\<close>

datatype 'a outcome = Throws exn | Rejects exn | Resolves 'a

text \<open>What the promise returned by the asynchronous \<^verbatim>\<open>execute\<close> does.\<close>

datatype result = Rejected exn | Resolved "val option"

datatype uri = Uri string

datatype textEditor = TextEditor (line: int)

record gitUri =
  uri_fsPath :: string
  uri_repoPath :: "string option"
  uri_sha :: "string option"

record gitCommit =
  commit_sha :: string
  commit_shortSha :: string
  commit_repoPath :: string
  commit_fileName :: string
  commit_isFile :: bool
  commit_isUncommitted :: bool
  commit_workingFileName :: "string option"

text \<open>
  \<^verbatim>\<open>GitLog\<close>: \<^verbatim>\<open>commits\<close> is a \<^verbatim>\<open>Map\<close> from revision id to commit object, kept
  here as an association list of addresses. The type declaration is not part of the source
  file. Modelled from the spec: the field \<open>log_sha\<close> is the revision id the batch was
  fetched for ("associated with the revision id that justified the fetch"); the command
  never reads it.
\<close>

record gitLog =
  log_sha :: "string option"
  log_commits :: "(string \<times> addr) list"

datatype gitBlameLine = GitBlameLine (blame_commit: addr)

datatype gitBranch = GitBranch (branch_name: string)

datatype gitRepoSearchBy = Sha | OtherSearchBy string

datatype commandName =
    ShowCommitInView
  | ShowQuickCommitDetails
  | ShowQuickCurrentBranchHistory
  | ShowQuickCommitFileDetails
  | OtherCommand string

text \<open>
  A \<^verbatim>\<open>CommandQuickPickItem\<close>: label, description, command and the argument list of
  the command. An arguments object in the list is held by reference.
\<close>

datatype commandArg = ArgGitUri gitUri | ArgRequest addr | ArgOther val

datatype commandQuickPickItem =
  CommandQuickPickItem (item_label: string) (item_description: string)
    (item_command: commandName) (item_args: "commandArg list")

text \<open>\<^verbatim>\<open>ShowQuickCommitDetailsCommandArgs\<close>; every field is optional.\<close>

record commandArgs =
  sha :: "string option"
  commit :: "addr option"
  repoLog :: "gitLog option"
  showInView :: "bool option"
  goBackCommand :: "commandQuickPickItem option"

definition emptyArgs :: commandArgs where
  "emptyArgs = \<lparr>sha = None, commit = None, repoLog = None, showInView = None,
     goBackCommand = None\<rparr>"

text \<open>The object literal passed to the file details command (lines 177-181).\<close>

record fileDetailsArgs =
  fd_commit :: addr
  fd_sha :: string
  fd_goBackCommand :: commandQuickPickItem

text \<open>What the picker returns: a file item of the commit, or any other command item.\<close>

datatype pick =
    CommitWithFileStatusQuickPickItem (pick_commit: addr) (pick_sha: string)
  | OtherQuickPickItem commandQuickPickItem

datatype messageKind =
    FileNotUnderSourceControlWarning
  | LineUncommittedWarning
  | CommitNotFoundWarning
  | GenericError

datatype event =
    FromUri uri
  | GetBlameForLine gitUri int
  | GetLog "string option" nat "string option"
  | GetBranch string
  | SearchViewSearch "string option" string gitRepoSearchBy string
  | ShowMessage messageKind string
  | LoggerError exn string "int option"
  | CommitQuickPickShow addr uri "commandQuickPickItem option" commandQuickPickItem
      "gitLog option"
  | PickExecute commandQuickPickItem
  | ExecuteCommand commandName gitUri fileDetailsArgs

fun isMessage :: "event \<Rightarrow> bool" where
  "isMessage (ShowMessage k m) = True"
| "isMessage ev = False"

fun isPicker :: "event \<Rightarrow> bool" where
  "isPicker (CommitQuickPickShow c u g cur l) = True"
| "isPicker ev = False"

fun isLogFetch :: "event \<Rightarrow> bool" where
  "isLogFetch (GetLog p n r) = True"
| "isLogFetch ev = False"

fun isBranchQuery :: "event \<Rightarrow> bool" where
  "isBranchQuery (GetBranch p) = True"
| "isBranchQuery ev = False"

text \<open>The queries of the version-control backend: blame, log and branch.\<close>

fun isBackendQuery :: "event \<Rightarrow> bool" where
  "isBackendQuery (GetBlameForLine g n) = True"
| "isBackendQuery (GetLog p n r) = True"
| "isBackendQuery (GetBranch p) = True"
| "isBackendQuery ev = False"

text \<open>
  The collaborators, none of which is defined in the source file: the editor host, the git
  service, the views, the picker, the messages, the command dispatcher, and the text
  decoration constants. The asynchronous ones return an \<^typ>\<open>'a outcome\<close>; the
  synchronous \<^verbatim>\<open>Logger.error\<close> returns, or throws the exception it gives. The four
  message functions are one function of the kind of message. No collaborator is called
  twice with the same arguments in one invocation, so a function of the arguments captures
  every behaviour.
\<close>

record env =
  getCommandUri :: "uri option \<Rightarrow> textEditor option \<Rightarrow> uri option"
  fromUri :: "uri \<Rightarrow> gitUri outcome"
  paths_relative :: "string \<Rightarrow> string \<Rightarrow> string"
  getBlameForLine :: "gitUri \<Rightarrow> int \<Rightarrow> gitBlameLine option outcome"
  getLog :: "string option \<Rightarrow> nat \<Rightarrow> string option \<Rightarrow> gitLog option outcome"
  getBranch :: "string \<Rightarrow> gitBranch option outcome"
  searchViewSearch :: "string option \<Rightarrow> string \<Rightarrow> gitRepoSearchBy \<Rightarrow> string \<Rightarrow> unit outcome"
  showMessage :: "messageKind \<Rightarrow> string \<Rightarrow> val option outcome"
  commitQuickPickShow :: "addr \<Rightarrow> uri \<Rightarrow> commandQuickPickItem option \<Rightarrow>
     commandQuickPickItem \<Rightarrow> gitLog option \<Rightarrow> pick option outcome"
  pickExecute :: "commandQuickPickItem \<Rightarrow> val option outcome"
  executeCommand :: "commandName \<Rightarrow> gitUri \<Rightarrow> fileDetailsArgs \<Rightarrow> val option outcome"
  toGitUri :: "gitCommit \<Rightarrow> gitUri"
  glyph_ArrowBack :: string
  glyph_Dash :: string
  glyph_Space :: string
  strings_pad :: "string \<Rightarrow> nat \<Rightarrow> nat \<Rightarrow> string"
  loggerError :: "exn \<Rightarrow> string \<Rightarrow> int option \<Rightarrow> exn option"

text \<open>
  The store. Arguments objects are allocated at \<open>next_args\<close>; commit objects are never
  allocated by the command, the git service hands out their addresses.
\<close>

record heap =
  args_at :: "addr \<Rightarrow> commandArgs"
  next_args :: addr
  commit_at :: "addr \<Rightarrow> gitCommit"

definition alloc :: "heap \<Rightarrow> commandArgs \<Rightarrow> addr \<times> heap" where
  "alloc h v = (next_args h, h\<lparr>args_at := (args_at h)(next_args h := v),
     next_args := Suc (next_args h)\<rparr>)"

text \<open>The local variables of \<^verbatim>\<open>execute\<close> after line 73, with the store and the trace.\<close>

record state =
  st_heap :: heap
  st_trace :: "event list"
  st_args :: addr
  st_uri :: uri
  st_repoPath :: "string option"
  st_workingFileName :: string

record final =
  outcome :: result
  heap_out :: heap
  events :: "event list"

text \<open>
  How a statement inside a \<^verbatim>\<open>try\<close> block completes: control goes on, the function
  returns, or an exception reaches the \<^verbatim>\<open>catch\<close> clause.
\<close>

datatype step = Continue state | Return final | Thrown exn state

section \<open>ShowQuickCommitDetailsCommand: operations\<close>

definition emit :: "event \<Rightarrow> state \<Rightarrow> state" where
  "emit ev st = st\<lparr>st_trace := st_trace st @ [ev]\<rparr>"

definition getArgs :: "state \<Rightarrow> commandArgs" where
  "getArgs st = args_at (st_heap st) (st_args st)"

definition setArgs :: "(commandArgs \<Rightarrow> commandArgs) \<Rightarrow> state \<Rightarrow> state" where
  "setArgs f st = st\<lparr>st_heap := (st_heap st)\<lparr>args_at :=
     (args_at (st_heap st))(st_args st := f (args_at (st_heap st) (st_args st)))\<rparr>\<rparr>"

definition getCommit :: "state \<Rightarrow> addr \<Rightarrow> gitCommit" where
  "getCommit st c = commit_at (st_heap st) c"

definition finish :: "state \<Rightarrow> result \<Rightarrow> final" where
  "finish st r = \<lparr>outcome = r, heap_out = st_heap st, events = st_trace st\<rparr>"

text \<open>\<^verbatim>\<open>await p\<close>: a synchronous throw and a rejection both raise in the caller.\<close>

fun awaited :: "'a outcome \<Rightarrow> exn + 'a" where
  "awaited (Throws e) = Inl e"
| "awaited (Rejects e) = Inl e"
| "awaited (Resolves v) = Inr v"

text \<open>
  \<^verbatim>\<open>return f(...)\<close> inside a \<^verbatim>\<open>try\<close> block of an asynchronous function, without
  \<^verbatim>\<open>await\<close>: a synchronous throw of the call reaches the \<^verbatim>\<open>catch\<close> clause; a
  returned promise settles the function's own promise, so its rejection is not caught.
\<close>

fun returnInTry :: "val option outcome \<Rightarrow> state \<Rightarrow> step" where
  "returnInTry (Throws e) st = Thrown e st"
| "returnInTry (Rejects e) st = Return (finish st (Rejected e))"
| "returnInTry (Resolves v) st = Return (finish st (Resolved v))"

text \<open>\<^verbatim>\<open>return f(...)\<close> outside any \<^verbatim>\<open>try\<close> block (here: in a \<^verbatim>\<open>catch\<close> clause).\<close>

fun returnPlain :: "val option outcome \<Rightarrow> state \<Rightarrow> final" where
  "returnPlain (Throws e) st = finish st (Rejected e)"
| "returnPlain (Rejects e) st = finish st (Rejected e)"
| "returnPlain (Resolves v) st = finish st (Resolved v)"

definition unableMessage :: string where
  "unableMessage = ''Unable to show commit details''"

definition className :: string where
  "className = ''ShowQuickCommitDetailsCommand''"

text \<open>\<^verbatim>\<open>return Messages.show...('Unable to show commit details')\<close> in a \<^verbatim>\<open>try\<close> block.\<close>

definition returnMessage :: "env \<Rightarrow> messageKind \<Rightarrow> state \<Rightarrow> step" where
  "returnMessage env k st =
     returnInTry (showMessage env k unableMessage) (emit (ShowMessage k unableMessage) st)"

text \<open>
  The two \<^verbatim>\<open>catch\<close> clauses (lines 97-100 and 183-186): log the error, return the
  generic error message. The first one also logs the blame line. Nothing guards a
  \<^verbatim>\<open>catch\<close> clause: a throw of \<^verbatim>\<open>Logger.error\<close> or of the message call, and
  a rejection of the message's promise, end the invocation with a rejection.
\<close>

definition catchClause :: "env \<Rightarrow> int option \<Rightarrow> exn \<Rightarrow> state \<Rightarrow> final" where
  "catchClause env ctx e st =
     (let st1 = emit (LoggerError e className ctx) st in
      case loggerError env e className ctx of
        Some e' \<Rightarrow> finish st1 (Rejected e')
      | None \<Rightarrow>
          returnPlain (showMessage env GenericError unableMessage)
            (emit (ShowMessage GenericError unableMessage) st1))"

text \<open>
  JavaScript truthiness of an optional boolean. (For the optional string \<^verbatim>\<open>repoPath\<close>
  of line 71, undefined and the empty string are falsy.)
\<close>

fun truthyBool :: "bool option \<Rightarrow> bool" where
  "truthyBool None = False"
| "truthyBool (Some b) = b"

text \<open>\<^verbatim>\<open>log.commits.get(args.sha!)\<close>; the \<^verbatim>\<open>!\<close> is erased at run time.\<close>

fun commitsGet :: "gitLog \<Rightarrow> string option \<Rightarrow> addr option" where
  "commitsGet l None = None"
| "commitsGet l (Some s) = map_of (log_commits l) s"

text \<open>
  Lines 64-73: resolve the uri, compute the locals, copy the arguments object. An omitted
  \<open>args\<close> is the default \<^verbatim>\<open>{}\<close>, a fresh object; \<^verbatim>\<open>{ ...args }\<close> is another one.
  None of this is inside a \<^verbatim>\<open>try\<close> block. When the invocation ends before line 73
  the default object is unreachable, and the store is returned as it was.
\<close>

definition enter :: "env \<Rightarrow> heap \<Rightarrow> textEditor option \<Rightarrow> uri option \<Rightarrow> addr option \<Rightarrow>
    final + (gitUri \<times> state)" where
  "enter env h editor uri argp =
     (case getCommandUri env uri editor of
        None \<Rightarrow> Inl \<lparr>outcome = Resolved None, heap_out = h, events = []\<rparr>
      | Some u \<Rightarrow>
          (case awaited (fromUri env u) of
             Inl e \<Rightarrow> Inl \<lparr>outcome = Rejected e, heap_out = h, events = [FromUri u]\<rparr>
           | Inr g \<Rightarrow>
               let repoPath = uri_repoPath g;
                   workingFileName =
                     (case repoPath of
                        None \<Rightarrow> uri_fsPath g
                      | Some rp \<Rightarrow>
                          if rp \<noteq> [] then paths_relative env rp (uri_fsPath g)
                          else uri_fsPath g);
                   (p, h0) = (case argp of None \<Rightarrow> alloc h emptyArgs | Some q \<Rightarrow> (q, h));
                   (a, h1) = alloc h0 (args_at h0 p)
               in Inr (g, \<lparr>st_heap = h1, st_trace = [FromUri u], st_args = a, st_uri = u,
                     st_repoPath = repoPath, st_workingFileName = workingFileName\<rparr>)))"

text \<open>Lines 80-96, the body of the first \<^verbatim>\<open>try\<close> block.\<close>

definition blameBody :: "env \<Rightarrow> gitUri \<Rightarrow> int \<Rightarrow> state \<Rightarrow> step" where
  "blameBody env g blameline st =
     (let st1 = emit (GetBlameForLine g blameline) st in
      case awaited (getBlameForLine env g blameline) of
        Inl e \<Rightarrow> Thrown e st1
      | Inr None \<Rightarrow> returnMessage env FileNotUnderSourceControlWarning st1
      | Inr (Some blame) \<Rightarrow>
          let c = getCommit st1 (blame_commit blame) in
          if commit_isUncommitted c then returnMessage env LineUncommittedWarning st1
          else Continue
            (setArgs (\<lambda>a. a\<lparr>commit := Some (blame_commit blame)\<rparr>)
              ((setArgs (\<lambda>a. a\<lparr>sha := Some (commit_sha c)\<rparr>) st1)
                 \<lparr>st_repoPath := Some (commit_repoPath c),
                  st_workingFileName := commit_fileName c\<rparr>)))"

text \<open>Lines 74-101: find the revision id by blame when the request has none.\<close>

definition resolveSha :: "env \<Rightarrow> textEditor option \<Rightarrow> gitUri \<Rightarrow> state \<Rightarrow> final + state" where
  "resolveSha env editor g st =
     (if sha (getArgs st) = None then
        (case editor of
           None \<Rightarrow> Inl (finish st (Resolved None))
         | Some ed \<Rightarrow>
             let blameline = line ed in
             if blameline < 0 then Inl (finish st (Resolved None))
             else
               (case blameBody env g blameline st of
                  Continue st1 \<Rightarrow> Inr st1
                | Return f \<Rightarrow> Inl f
                | Thrown e st1 \<Rightarrow> Inl (catchClause env (Some blameline) e st1)))
      else Inr st)"

text \<open>Lines 104-121: look the commit up in the cached log, else in a fresh one.\<close>

definition useRepoLog :: "state \<Rightarrow> state" where
  "useRepoLog st =
     (case repoLog (getArgs st) of
        None \<Rightarrow> st
      | Some l \<Rightarrow>
          let st1 = setArgs (\<lambda>a. a\<lparr>commit := commitsGet l (sha a)\<rparr>) st in
          if commit (getArgs st1) = None then setArgs (\<lambda>a. a\<lparr>repoLog := None\<rparr>) st1
          else st1)"

definition fetchLog :: "env \<Rightarrow> state \<Rightarrow> step" where
  "fetchLog env st =
     (if repoLog (getArgs st) = None then
        (let st1 = emit (GetLog (st_repoPath st) 2 (sha (getArgs st))) st in
         case awaited (getLog env (st_repoPath st) 2 (sha (getArgs st))) of
           Inl e \<Rightarrow> Thrown e st1
         | Inr None \<Rightarrow> returnMessage env CommitNotFoundWarning st1
         | Inr (Some l) \<Rightarrow>
             Continue (setArgs (\<lambda>a. a\<lparr>commit := commitsGet l (sha a)\<rparr>) st1))
      else Continue st)"

definition needsLookup :: "state \<Rightarrow> bool" where
  "needsLookup st =
     (case commit (getArgs st) of
        None \<Rightarrow> True
      | Some c \<Rightarrow> commit_isFile (getCommit st c))"

definition findCommit :: "env \<Rightarrow> state \<Rightarrow> step" where
  "findCommit env st =
     (if needsLookup st then fetchLog env (useRepoLog st) else Continue st)"

text \<open>
  Lines 139-152: the inbound back command. The commit \<open>c\<close> is \<^verbatim>\<open>args.commit\<close>, known
  to be defined after line 125.
\<close>

definition goBackLabel :: "env \<Rightarrow> string" where
  "goBackLabel env = ''go back '' @ glyph_ArrowBack env"

definition branchHistoryCommand :: "env \<Rightarrow> gitBranch \<Rightarrow> gitCommit \<Rightarrow> commandQuickPickItem" where
  "branchHistoryCommand env branch cm =
     CommandQuickPickItem (goBackLabel env)
       (strings_pad env (glyph_Dash env) 2 3 @ '' to '' @ branch_name branch @ '' history'')
       ShowQuickCurrentBranchHistory [ArgGitUri (toGitUri env cm)]"

definition buildGoBack :: "env \<Rightarrow> addr \<Rightarrow> state \<Rightarrow> step" where
  "buildGoBack env c st =
     (if goBackCommand (getArgs st) = None then
        (let st1 = emit (GetBranch (commit_repoPath (getCommit st c))) st in
         case awaited (getBranch env (commit_repoPath (getCommit st c))) of
           Inl e \<Rightarrow> Thrown e st1
         | Inr None \<Rightarrow> Continue st1
         | Inr (Some branch) \<Rightarrow>
             Continue (setArgs
               (\<lambda>a. a\<lparr>goBackCommand :=
                  Some (branchHistoryCommand env branch (getCommit st1 c))\<rparr>) st1))
      else Continue st)"

text \<open>Lines 154-164: the command that leads back to this step.\<close>

definition currentCommand :: "env \<Rightarrow> addr \<Rightarrow> state \<Rightarrow> commandQuickPickItem" where
  "currentCommand env c st =
     CommandQuickPickItem (goBackLabel env)
       (strings_pad env (glyph_Dash env) 2 3 @ '' to details of '' @ glyph_Space env
          @ ''$(git-commit) '' @ commit_shortSha (getCommit st c))
       ShowQuickCommitDetails
       [ArgGitUri (toGitUri env (getCommit st c)), ArgRequest (st_args st)]"

text \<open>Lines 166-181: show the picker and dispatch on the picked item.\<close>

definition showPicker :: "env \<Rightarrow> addr \<Rightarrow> state \<Rightarrow> step" where
  "showPicker env c st =
     (let cur = currentCommand env c st;
          a = getArgs st;
          st1 = emit (CommitQuickPickShow c (st_uri st) (goBackCommand a) cur (repoLog a)) st
      in
      case awaited (commitQuickPickShow env c (st_uri st) (goBackCommand a) cur (repoLog a)) of
        Inl e \<Rightarrow> Thrown e st1
      | Inr None \<Rightarrow> Return (finish st1 (Resolved None))
      | Inr (Some (OtherQuickPickItem it)) \<Rightarrow>
          returnInTry (pickExecute env it) (emit (PickExecute it) st1)
      | Inr (Some (CommitWithFileStatusQuickPickItem pc ps)) \<Rightarrow>
          (let fargs = \<lparr>fd_commit = pc, fd_sha = ps, fd_goBackCommand = cur\<rparr>;
               target = toGitUri env (getCommit st1 pc)
           in returnInTry (executeCommand env ShowQuickCommitFileDetails target fargs)
                (emit (ExecuteCommand ShowQuickCommitFileDetails target fargs) st1)))"

text \<open>Lines 127-129: the one write to a commit object.\<close>

definition setWorkingFileName :: "addr \<Rightarrow> state \<Rightarrow> state" where
  "setWorkingFileName c st =
     (if commit_workingFileName (getCommit st c) = None then
        st\<lparr>st_heap := (st_heap st)\<lparr>commit_at := (commit_at (st_heap st))
          (c := (commit_at (st_heap st) c)\<lparr>commit_workingFileName :=
             Some (st_workingFileName st)\<rparr>)\<rparr>\<rparr>
      else st)"

text \<open>Lines 131-137: route the commit to the search view.\<close>

definition searchLabel :: "gitCommit \<Rightarrow> string" where
  "searchLabel cm =
     ''commits with an id matching '' @ [CHR 0x27] @ commit_shortSha cm @ [CHR 0x27]"

definition showInSearchView :: "env \<Rightarrow> addr \<Rightarrow> state \<Rightarrow> step" where
  "showInSearchView env c st =
     (let cm = getCommit st c;
          st1 = emit (SearchViewSearch (st_repoPath st) (commit_sha cm) Sha (searchLabel cm)) st
      in
      case awaited (searchViewSearch env (st_repoPath st) (commit_sha cm) Sha (searchLabel cm)) of
        Inl e \<Rightarrow> Thrown e st1
      | Inr u \<Rightarrow> Return (finish st1 (Resolved None)))"

text \<open>Lines 127-181, with \<open>c\<close> the commit that lines 104-125 resolved.\<close>

definition display :: "env \<Rightarrow> addr \<Rightarrow> state \<Rightarrow> step" where
  "display env c st =
     (let st1 = setWorkingFileName c st in
      if truthyBool (showInView (getArgs st1)) then showInSearchView env c st1
      else
        (case buildGoBack env c st1 of
           Continue st2 \<Rightarrow> showPicker env c st2
         | Return f \<Rightarrow> Return f
         | Thrown e st2 \<Rightarrow> Thrown e st2))"

text \<open>
  The second \<^verbatim>\<open>try\<close> block (lines 103-186) around a part of its body: a statement
  that returns ends the invocation, an exception goes to the \<^verbatim>\<open>catch\<close> clause,
  otherwise control goes on inside the block.
\<close>

definition tryCatch :: "env \<Rightarrow> step \<Rightarrow> final + state" where
  "tryCatch env s =
     (case s of
        Continue st \<Rightarrow> Inr st
      | Return f \<Rightarrow> Inl f
      | Thrown e st \<Rightarrow> Inl (catchClause env None e st))"

text \<open>
  Lines 64-125: everything up to the point where the commit is known. The result is
  either the end of the invocation or the state at line 127 with the resolved commit.
\<close>

definition resolveCommit :: "env \<Rightarrow> heap \<Rightarrow> textEditor option \<Rightarrow> uri option \<Rightarrow> addr option \<Rightarrow>
    final + (state \<times> addr)" where
  "resolveCommit env h editor uri argp =
     (case enter env h editor uri argp of
        Inl f \<Rightarrow> Inl f
      | Inr (g, st) \<Rightarrow>
          (case resolveSha env editor g st of
             Inl f \<Rightarrow> Inl f
           | Inr st1 \<Rightarrow>
               (case tryCatch env (findCommit env st1) of
                  Inl f \<Rightarrow> Inl f
                | Inr st2 \<Rightarrow>
                    (case commit (getArgs st2) of
                       None \<Rightarrow>
                         (case tryCatch env (returnMessage env CommitNotFoundWarning st2) of
                            Inl f \<Rightarrow> Inl f
                          | Inr st3 \<Rightarrow> Inl (finish st3 (Resolved None)))
                     | Some c \<Rightarrow> Inr (st2, c)))))"

text \<open>
  The whole of \<^verbatim>\<open>execute\<close>: the resolution, then lines 127-181 inside the same
  \<^verbatim>\<open>try\<close> block. Line 181 is the last statement, and each path of \<open>display\<close>
  returns or throws.
\<close>

definition execute :: "env \<Rightarrow> heap \<Rightarrow> textEditor option \<Rightarrow> uri option \<Rightarrow> addr option \<Rightarrow> final" where
  "execute env h editor uri argp =
     (case resolveCommit env h editor uri argp of
        Inl f \<Rightarrow> f
      | Inr (st, c) \<Rightarrow>
          (case tryCatch env (display env c st) of
             Inl f \<Rightarrow> f
           | Inr st1 \<Rightarrow> finish st1 (Resolved None)))"

text \<open>The trace and the store at the end of a statement, however it completes.\<close>

fun stepTrace :: "step \<Rightarrow> event list" where
  "stepTrace (Continue st) = st_trace st"
| "stepTrace (Return f) = events f"
| "stepTrace (Thrown e st) = st_trace st"

fun stepHeap :: "step \<Rightarrow> heap" where
  "stepHeap (Continue st) = st_heap st"
| "stepHeap (Return f) = heap_out f"
| "stepHeap (Thrown e st) = st_heap st"

fun isResolved :: "result \<Rightarrow> bool" where
  "isResolved (Resolved v) = True"
| "isResolved (Rejected e) = False"

text \<open>The arguments object the caller passes; an omitted one is \<^verbatim>\<open>{}\<close>.\<close>

definition callerArgs :: "heap \<Rightarrow> addr option \<Rightarrow> commandArgs" where
  "callerArgs h argp = (case argp of None \<Rightarrow> emptyArgs | Some q \<Rightarrow> args_at h q)"

text \<open>
  Following the spec (section 4.3) rather than the code: the back action offered for the
  display of commit \<open>cm\<close> is the inbound one when the caller supplied it. Otherwise,
  when a branch is found for the commit's repository path, it is an action that is
  labelled with that branch's history, whose target is the command showing the history of
  the current branch, and whose one parameter is the uri derived from the commit. When no
  branch is found there is none.
\<close>

definition specGoBack :: "env \<Rightarrow> commandQuickPickItem option \<Rightarrow> gitCommit \<Rightarrow>
    commandQuickPickItem option" where
  "specGoBack env inbound cm =
     (case inbound of
        Some b \<Rightarrow> Some b
      | None \<Rightarrow>
          (case getBranch env (commit_repoPath cm) of
             Resolves (Some br) \<Rightarrow>
               Some (CommandQuickPickItem
                 (''go back '' @ glyph_ArrowBack env)
                 (strings_pad env (glyph_Dash env) 2 3 @ '' to '' @ branch_name br @ '' history'')
                 ShowQuickCurrentBranchHistory
                 [ArgGitUri (toGitUri env cm)])
           | Resolves None \<Rightarrow> None
           | Throws e \<Rightarrow> None
           | Rejects e \<Rightarrow> None))"

text \<open>
  The exception that the call recorded by an event raises inside a \<^verbatim>\<open>try\<close> block: an
  awaited call raises when it throws or rejects, a call whose promise is returned without
  \<^verbatim>\<open>await\<close> raises only when it throws. The uri resolution is awaited outside the
  \<^verbatim>\<open>try\<close> blocks and the logger is called in the \<^verbatim>\<open>catch\<close> clauses only.
\<close>

fun raised :: "env \<Rightarrow> event \<Rightarrow> exn option" where
  "raised env (GetBlameForLine g n) =
     (case awaited (getBlameForLine env g n) of Inl e \<Rightarrow> Some e | Inr x \<Rightarrow> None)"
| "raised env (GetLog p n r) =
     (case awaited (getLog env p n r) of Inl e \<Rightarrow> Some e | Inr x \<Rightarrow> None)"
| "raised env (GetBranch p) =
     (case awaited (getBranch env p) of Inl e \<Rightarrow> Some e | Inr x \<Rightarrow> None)"
| "raised env (SearchViewSearch p s b l) =
     (case awaited (searchViewSearch env p s b l) of Inl e \<Rightarrow> Some e | Inr x \<Rightarrow> None)"
| "raised env (CommitQuickPickShow c u b cur l) =
     (case awaited (commitQuickPickShow env c u b cur l) of Inl e \<Rightarrow> Some e | Inr x \<Rightarrow> None)"
| "raised env (ShowMessage k m) =
     (case showMessage env k m of Throws e \<Rightarrow> Some e | Rejects e \<Rightarrow> None | Resolves v \<Rightarrow> None)"
| "raised env (PickExecute it) =
     (case pickExecute env it of Throws e \<Rightarrow> Some e | Rejects e \<Rightarrow> None | Resolves v \<Rightarrow> None)"
| "raised env (ExecuteCommand n g a) =
     (case executeCommand env n g a of
        Throws e \<Rightarrow> Some e | Rejects e \<Rightarrow> None | Resolves v \<Rightarrow> None)"
| "raised env (FromUri u) = None"
| "raised env (LoggerError e c x) = None"

fun isLoggerError :: "event \<Rightarrow> bool" where
  "isLoggerError (LoggerError e c x) = True"
| "isLoggerError ev = False"

section \<open>Sample inputs\<close>

text \<open>
  A repository \<open>/r\<close> with the file \<open>a.ts\<close>, five commit objects and eight request
  objects; the theorems below are instantiated at these inputs.
\<close>

definition sampleUri :: uri where
  "sampleUri = Uri ''a.ts''"

definition sampleGitUri :: gitUri where
  "sampleGitUri = \<lparr>uri_fsPath = ''/r/a.ts'', uri_repoPath = Some ''/r'', uri_sha = None\<rparr>"

definition sampleCommit :: gitCommit where
  "sampleCommit = \<lparr>commit_sha = ''abc123'', commit_shortSha = ''abc1'', commit_repoPath = ''/r'',
     commit_fileName = ''a.ts'', commit_isFile = False, commit_isUncommitted = False,
     commit_workingFileName = None\<rparr>"

text \<open>A two-entry batch fetched for revision \<open>R\<close>: \<open>R\<close> and its parent \<open>R2\<close>.\<close>

definition cachedLog :: gitLog where
  "cachedLog = \<lparr>log_sha = Some ''R'', log_commits = [(''R'', 4), (''R2'', 3)]\<rparr>"

definition backItem :: commandQuickPickItem where
  "backItem = CommandQuickPickItem ''back'' ''to history'' ShowQuickCurrentBranchHistory []"

text \<open>
  Commit 0 is a full commit, commit 1 a file-scoped one (what blame returns for every line
  but line 7), commit 2 the uncommitted placeholder (blamed for line 7), commits 3 and 4
  are \<open>R2\<close> and \<open>R\<close>.
\<close>

definition sampleCommits :: "addr \<Rightarrow> gitCommit" where
  "sampleCommits a =
     (if a = 1 then sampleCommit\<lparr>commit_sha := ''b1a4e'', commit_isFile := True\<rparr>
      else if a = 2 then sampleCommit\<lparr>commit_sha := ''0000'', commit_isUncommitted := True\<rparr>
      else if a = 3 then sampleCommit\<lparr>commit_sha := ''R2''\<rparr>
      else if a = 4 then sampleCommit\<lparr>commit_sha := ''R''\<rparr>
      else sampleCommit)"

definition sampleRequests :: "addr \<Rightarrow> commandArgs" where
  "sampleRequests a =
     (if a = 1 then emptyArgs\<lparr>sha := Some ''deadbeef''\<rparr>
      else if a = 2 then emptyArgs\<lparr>sha := Some ''abc123'', commit := Some 0\<rparr>
      else if a = 3 then emptyArgs\<lparr>commit := Some 0\<rparr>
      else if a = 4 then emptyArgs\<lparr>sha := Some ''R2'', repoLog := Some cachedLog\<rparr>
      else if a = 5 then
        emptyArgs\<lparr>sha := Some ''abc123'', commit := Some 0, showInView := Some True\<rparr>
      else if a = 6 then
        emptyArgs\<lparr>sha := Some ''abc123'', commit := Some 0, goBackCommand := Some backItem\<rparr>
      else if a = 7 then emptyArgs\<lparr>sha := Some ''deadbeef'', repoLog := Some cachedLog\<rparr>
      else emptyArgs)"

definition sampleHeap :: heap where
  "sampleHeap = \<lparr>args_at = sampleRequests, next_args = 8, commit_at = sampleCommits\<rparr>"

definition sampleEnv :: env where
  "sampleEnv = \<lparr>
     getCommandUri = (\<lambda>u e. u),
     fromUri = (\<lambda>u. Resolves sampleGitUri),
     paths_relative = (\<lambda>r p. drop (Suc (length r)) p),
     getBlameForLine = (\<lambda>g n. Resolves (Some (GitBlameLine (if n = 7 then 2 else 1)))),
     getLog = (\<lambda>p n r. Resolves None),
     getBranch = (\<lambda>p. Resolves (Some (GitBranch ''main''))),
     searchViewSearch = (\<lambda>p s b l. Resolves ()),
     showMessage = (\<lambda>k m. Resolves None),
     commitQuickPickShow = (\<lambda>c u b cur l. Resolves None),
     pickExecute = (\<lambda>it. Resolves None),
     executeCommand = (\<lambda>n g a. Resolves None),
     toGitUri = (\<lambda>cm. \<lparr>uri_fsPath = commit_repoPath cm @ ''/'' @ commit_fileName cm,
        uri_repoPath = Some (commit_repoPath cm), uri_sha = Some (commit_sha cm)\<rparr>),
     glyph_ArrowBack = ''<-'',
     glyph_Dash = ''-'',
     glyph_Space = '' '',
     strings_pad = (\<lambda>s b a. replicate b (CHR '' '') @ s @ replicate a (CHR '' '')),
     loggerError = (\<lambda>e c x. None)\<rparr>"

text \<open>The same collaborators, except that resolving the uri fails.\<close>

definition failingUriEnv :: env where
  "failingUriEnv = sampleEnv\<lparr>fromUri := (\<lambda>u. Rejects (Exn ''no repository''))\<rparr>"

text \<open>The same collaborators, except that the log fetch throws.\<close>

definition failingLogEnv :: env where
  "failingLogEnv = sampleEnv\<lparr>getLog := (\<lambda>p n r. Throws (Exn ''git failed''))\<rparr>"

lemmas sample_defs =
  sampleUri_def sampleGitUri_def sampleCommit_def cachedLog_def backItem_def sampleCommits_def
  sampleRequests_def sampleHeap_def sampleEnv_def failingUriEnv_def failingLogEnv_def
  callerArgs_def emptyArgs_def

section \<open>Vocabulary of the proofs\<close>

text \<open>
  Two stores agree except for the arguments object at one address: same allocation
  pointer, same commit objects, same arguments objects elsewhere.
\<close>

definition sameBut :: "addr \<Rightarrow> heap \<Rightarrow> heap \<Rightarrow> bool" where
  "sameBut a h h' \<longleftrightarrow>
     next_args h' = next_args h \<and> commit_at h' = commit_at h \<and>
     (\<forall>q. q \<noteq> a \<longrightarrow> args_at h' q = args_at h q)"

text \<open>The events that lines 64-125 can emit, and those that lines 127-186 can emit.\<close>

fun isResolveEvent :: "event \<Rightarrow> bool" where
  "isResolveEvent (FromUri u) = True"
| "isResolveEvent (GetBlameForLine g n) = True"
| "isResolveEvent (GetLog p n r) = True"
| "isResolveEvent (ShowMessage k m) = True"
| "isResolveEvent (LoggerError e c x) = True"
| "isResolveEvent ev = False"

text \<open>
  An event is quiet when its call raised nothing and it is not a log entry. A statement of a
  \<^verbatim>\<open>try\<close> block is in order when its trace is quiet, except that a statement that
  throws \<open>e\<close> ends its trace with the event whose call raised \<open>e\<close>. An invocation has
  absorbed its exceptions when its trace is quiet, or ends with the event that raised, the
  log entry of the exception and the generic error message, and its result is the one of
  that message.
\<close>

definition quiet :: "env \<Rightarrow> event \<Rightarrow> bool" where
  "quiet env ev \<longleftrightarrow> raised env ev = None \<and> \<not> isLoggerError ev"

fun stepOk :: "env \<Rightarrow> step \<Rightarrow> bool" where
  "stepOk env (Continue st) = (\<forall>ev\<in>set (st_trace st). quiet env ev)"
| "stepOk env (Return f) = (\<forall>ev\<in>set (events f). quiet env ev)"
| "stepOk env (Thrown e st) =
     (\<exists>tr ev. st_trace st = tr @ [ev] \<and> (\<forall>x\<in>set tr. quiet env x) \<and>
        raised env ev = Some e \<and> \<not> isLoggerError ev)"

definition absorbed :: "env \<Rightarrow> final \<Rightarrow> bool" where
  "absorbed env f \<longleftrightarrow>
     (\<forall>ev\<in>set (events f). quiet env ev) \<or>
     (\<exists>tr ev e ctx.
        events f = tr @ [ev, LoggerError e className ctx,
          ShowMessage GenericError unableMessage] \<and>
        (\<forall>x\<in>set tr. quiet env x) \<and> raised env ev = Some e \<and> \<not> isLoggerError ev \<and>
        outcome f =
          (case awaited (showMessage env GenericError unableMessage) of
             Inl e' \<Rightarrow> Rejected e' | Inr v \<Rightarrow> Resolved v))"

fun isDisplayEvent :: "event \<Rightarrow> bool" where
  "isDisplayEvent (FromUri u) = False"
| "isDisplayEvent (GetBlameForLine g n) = False"
| "isDisplayEvent (GetLog p n r) = False"
| "isDisplayEvent ev = True"

lemmas phase_defs =
  enter_def resolveSha_def blameBody_def useRepoLog_def fetchLog_def needsLookup_def
  findCommit_def buildGoBack_def showPicker_def setWorkingFileName_def
  showInSearchView_def display_def resolveCommit_def execute_def tryCatch_def
  currentCommand_def branchHistoryCommand_def goBackLabel_def searchLabel_def

lemmas state_defs =
  emit_def getArgs_def setArgs_def getCommit_def finish_def returnMessage_def
  catchClause_def alloc_def unableMessage_def className_def

section \<open>Lemmas about the phases\<close>

subsection \<open>State operations\<close>

lemma emit_simps [simp]:
  "st_trace (emit ev st) = st_trace st @ [ev]"
  "st_heap (emit ev st) = st_heap st"
  "st_args (emit ev st) = st_args st"
  "st_uri (emit ev st) = st_uri st"
  "st_repoPath (emit ev st) = st_repoPath st"
  "st_workingFileName (emit ev st) = st_workingFileName st"
  "getArgs (emit ev st) = getArgs st"
  "getCommit (emit ev st) c = getCommit st c"
  by (simp_all add: emit_def getArgs_def getCommit_def)

lemma setArgs_simps [simp]:
  "st_trace (setArgs f st) = st_trace st"
  "st_args (setArgs f st) = st_args st"
  "st_uri (setArgs f st) = st_uri st"
  "st_repoPath (setArgs f st) = st_repoPath st"
  "st_workingFileName (setArgs f st) = st_workingFileName st"
  "getArgs (setArgs f st) = f (getArgs st)"
  "getCommit (setArgs f st) c = getCommit st c"
  "next_args (st_heap (setArgs f st)) = next_args (st_heap st)"
  "commit_at (st_heap (setArgs f st)) = commit_at (st_heap st)"
  by (simp_all add: setArgs_def getArgs_def getCommit_def)

lemma setArgs_other [simp]:
  "q \<noteq> st_args st \<Longrightarrow> args_at (st_heap (setArgs f st)) q = args_at (st_heap st) q"
  by (simp add: setArgs_def)

lemma locals_simps [simp]:
  "getArgs (st\<lparr>st_repoPath := rp\<rparr>) = getArgs st"
  "getArgs (st\<lparr>st_workingFileName := w\<rparr>) = getArgs st"
  "getCommit (st\<lparr>st_repoPath := rp\<rparr>) c = getCommit st c"
  "getCommit (st\<lparr>st_workingFileName := w\<rparr>) c = getCommit st c"
  by (simp_all add: getArgs_def getCommit_def)

lemma finish_simps [simp]:
  "outcome (finish st r) = r"
  "heap_out (finish st r) = st_heap st"
  "events (finish st r) = st_trace st"
  by (simp_all add: finish_def)

lemma setWorkingFileName_simps [simp]:
  "st_trace (setWorkingFileName c st) = st_trace st"
  "st_args (setWorkingFileName c st) = st_args st"
  "st_uri (setWorkingFileName c st) = st_uri st"
  "st_repoPath (setWorkingFileName c st) = st_repoPath st"
  "st_workingFileName (setWorkingFileName c st) = st_workingFileName st"
  "getArgs (setWorkingFileName c st) = getArgs st"
  "next_args (st_heap (setWorkingFileName c st)) = next_args (st_heap st)"
  "args_at (st_heap (setWorkingFileName c st)) = args_at (st_heap st)"
  by (simp_all add: setWorkingFileName_def getArgs_def)

lemma setWorkingFileName_commit:
  "getCommit (setWorkingFileName c st) x =
     (if x = c \<and> commit_workingFileName (getCommit st c) = None
      then (getCommit st c)\<lparr>commit_workingFileName := Some (st_workingFileName st)\<rparr>
      else getCommit st x)"
  by (simp add: setWorkingFileName_def getCommit_def)

lemma setWorkingFileName_defined [simp]:
  "commit_workingFileName (getCommit (setWorkingFileName c st) c) \<noteq> None"
  by (simp add: setWorkingFileName_commit)

subsection \<open>Returning and catching\<close>

lemma catchClause_simps [simp]:
  "heap_out (catchClause env ctx e st) = st_heap st"
  "events (catchClause env ctx e st) =
     st_trace st @ LoggerError e className ctx #
       (case loggerError env e className ctx of
          None \<Rightarrow> [ShowMessage GenericError unableMessage] | Some e' \<Rightarrow> [])"
  by (cases "showMessage env GenericError unableMessage"; cases "loggerError env e className ctx";
      simp add: catchClause_def)+

lemma catchClause_outcome:
  "outcome (catchClause env ctx e st) =
     (case loggerError env e className ctx of
        Some e' \<Rightarrow> Rejected e'
      | None \<Rightarrow>
          (case awaited (showMessage env GenericError unableMessage) of
             Inl e' \<Rightarrow> Rejected e' | Inr v \<Rightarrow> Resolved v))"
  by (cases "showMessage env GenericError unableMessage"; cases "loggerError env e className ctx";
      simp add: catchClause_def)

lemma returnInTry_simps [simp]:
  "stepTrace (returnInTry p st) = st_trace st"
  "stepHeap (returnInTry p st) = st_heap st"
  "returnInTry p st \<noteq> Continue st'"
  by (cases p; simp)+

lemma returnMessage_simps [simp]:
  "stepTrace (returnMessage env k st) = st_trace st @ [ShowMessage k unableMessage]"
  "stepHeap (returnMessage env k st) = st_heap st"
  "returnMessage env k st \<noteq> Continue st'"
  by (simp_all add: returnMessage_def)

lemma tryCatch_Inr [simp]: "tryCatch env s = Inr st \<longleftrightarrow> s = Continue st"
  by (cases s; simp add: tryCatch_def)

lemma tryCatch_Inl:
  assumes "tryCatch env s = Inl f"
  shows "heap_out f = stepHeap s"
    and "events f = stepTrace s \<or>
      (\<exists>e. events f = stepTrace s @ [LoggerError e className None,
          ShowMessage GenericError unableMessage]) \<or>
      (\<exists>e. events f = stepTrace s @ [LoggerError e className None])"
  using assms by (cases s; auto simp: tryCatch_def split: option.splits)+


subsection \<open>Stores\<close>

lemma sameBut_refl [simp]: "sameBut a h h"
  by (simp add: sameBut_def)

lemma sameBut_trans: "sameBut a h h' \<Longrightarrow> sameBut a h' h'' \<Longrightarrow> sameBut a h h''"
  by (simp add: sameBut_def)

lemma sameBut_setArgs [simp]:
  "a = st_args st \<Longrightarrow> sameBut a h (st_heap (setArgs f st)) = sameBut a h (st_heap st)"
  "a = st_args st \<Longrightarrow> sameBut a (st_heap (setArgs f st)) h = sameBut a (st_heap st) h"
  by (auto simp: sameBut_def)

subsection \<open>Lines 64-73\<close>

lemma enter_Inr:
  assumes "enter env h editor uri argp = Inr (g, st)"
  shows "\<exists>u. getCommandUri env uri editor = Some u \<and> fromUri env u = Resolves g \<and>
           st_trace st = [FromUri u] \<and> st_uri st = u"
    and "st_repoPath st = uri_repoPath g"
    and "getArgs st = callerArgs h argp"
    and "commit_at (st_heap st) = commit_at h"
    and "next_args h \<le> st_args st"
    and "st_args st < next_args (st_heap st)"
    and "\<forall>q<next_args h. args_at (st_heap st) q = args_at h q"
  using assms
  by (cases "getCommandUri env uri editor"; cases "fromUri env (the (getCommandUri env uri editor))";
      cases argp;
      auto simp: enter_def alloc_def getArgs_def callerArgs_def Let_def)+

lemma enter_Inl:
  assumes "enter env h editor uri argp = Inl f"
  shows "heap_out f = h"
    and "(getCommandUri env uri editor = None \<and> events f = [] \<and> outcome f = Resolved None) \<or>
         (\<exists>u e. getCommandUri env uri editor = Some u \<and> awaited (fromUri env u) = Inl e \<and>
            events f = [FromUri u] \<and> outcome f = Rejected e)"
  using assms
  by (cases "getCommandUri env uri editor"; cases "fromUri env (the (getCommandUri env uri editor))";
      cases argp;
      auto simp: enter_def alloc_def Let_def)+

lemma enter_ok:
  assumes "getCommandUri env uri editor = Some u" and "fromUri env u = Resolves g"
  shows "\<exists>st. enter env h editor uri argp = Inr (g, st)"
  using assms by (cases argp; simp add: enter_def alloc_def Let_def)

subsection \<open>Lines 74-101\<close>

lemma blameBody_trace:
  "set (stepTrace (blameBody env g n st)) \<subseteq> set (st_trace st) \<union> Collect isResolveEvent"
  by (cases "getBlameForLine env g n")
     (auto simp: blameBody_def Let_def split: option.splits)

lemma blameBody_heap: "sameBut (st_args st) (st_heap st) (stepHeap (blameBody env g n st))"
  by (cases "getBlameForLine env g n")
     (auto simp: blameBody_def Let_def sameBut_def split: option.splits)

lemma blameBody_Continue:
  assumes "blameBody env g n st = Continue st'"
  shows "st_args st' = st_args st" and "st_uri st' = st_uri st"
    and "showInView (getArgs st') = showInView (getArgs st)"
    and "goBackCommand (getArgs st') = goBackCommand (getArgs st)"
    and "repoLog (getArgs st') = repoLog (getArgs st)"
    and "sha (getArgs st') \<noteq> None"
  using assms
  by (cases "getBlameForLine env g n";
      auto simp: blameBody_def Let_def split: option.splits if_splits)+


lemma resolveSha_has_sha: "sha (getArgs st) = Some s \<Longrightarrow> resolveSha env editor g st = Inr st"
  by (simp add: resolveSha_def)

lemma resolveSha_Inr:
  assumes "resolveSha env editor g st = Inr st'"
  shows "st_args st' = st_args st" and "st_uri st' = st_uri st"
    and "showInView (getArgs st') = showInView (getArgs st)"
    and "goBackCommand (getArgs st') = goBackCommand (getArgs st)"
    and "repoLog (getArgs st') = repoLog (getArgs st)"
    and "sha (getArgs st') \<noteq> None"
    and "sameBut (st_args st) (st_heap st) (st_heap st')"
    and "set (st_trace st') \<subseteq> set (st_trace st) \<union> Collect isResolveEvent"
proof -
  consider (given) "st' = st" "sha (getArgs st) \<noteq> None"
    | (blamed) ed where "blameBody env g (line ed) st = Continue st'"
    using assms
    by (auto simp: resolveSha_def Let_def split: if_splits option.splits step.splits)
  then have "st_args st' = st_args st \<and> st_uri st' = st_uri st \<and>
      showInView (getArgs st') = showInView (getArgs st) \<and>
      goBackCommand (getArgs st') = goBackCommand (getArgs st) \<and>
      repoLog (getArgs st') = repoLog (getArgs st) \<and>
      sha (getArgs st') \<noteq> None \<and>
      sameBut (st_args st) (st_heap st) (st_heap st') \<and>
      set (st_trace st') \<subseteq> set (st_trace st) \<union> Collect isResolveEvent"
  proof cases
    case given
    then show ?thesis by auto
  next
    case blamed
    from blameBody_heap [of st env g "line ed"] blameBody_trace [of env g "line ed" st]
      blameBody_Continue [OF blamed] blamed
    show ?thesis by simp
  qed
  then show "st_args st' = st_args st" and "st_uri st' = st_uri st"
    and "showInView (getArgs st') = showInView (getArgs st)"
    and "goBackCommand (getArgs st') = goBackCommand (getArgs st)"
    and "repoLog (getArgs st') = repoLog (getArgs st)"
    and "sha (getArgs st') \<noteq> None"
    and "sameBut (st_args st) (st_heap st) (st_heap st')"
    and "set (st_trace st') \<subseteq> set (st_trace st) \<union> Collect isResolveEvent"
    by blast+
qed

lemma resolveSha_Inl:
  assumes "resolveSha env editor g st = Inl f"
  shows "sameBut (st_args st) (st_heap st) (heap_out f)"
    and "set (events f) \<subseteq> set (st_trace st) \<union> Collect isResolveEvent"
proof -
  consider (silent) "f = finish st (Resolved None)"
    | (returned) ed where "blameBody env g (line ed) st = Return f"
    | (caught) ed e st1 where "blameBody env g (line ed) st = Thrown e st1"
        "f = catchClause env (Some (line ed)) e st1"
    using assms
    by (auto simp: resolveSha_def Let_def split: if_splits option.splits step.splits)
  then have "sameBut (st_args st) (st_heap st) (heap_out f) \<and>
      set (events f) \<subseteq> set (st_trace st) \<union> Collect isResolveEvent"
  proof cases
    case silent
    then show ?thesis by simp
  next
    case returned
    from blameBody_heap [of st env g "line ed"] blameBody_trace [of env g "line ed" st] returned
    show ?thesis by simp
  next
    case caught
    from blameBody_heap [of st env g "line ed"] blameBody_trace [of env g "line ed" st] caught
    show ?thesis by auto
  qed
  then show "sameBut (st_args st) (st_heap st) (heap_out f)"
    and "set (events f) \<subseteq> set (st_trace st) \<union> Collect isResolveEvent"
    by blast+
qed

subsection \<open>Lines 104-121\<close>

lemma useRepoLog_simps [simp]:
  "st_trace (useRepoLog st) = st_trace st"
  "st_args (useRepoLog st) = st_args st"
  "st_uri (useRepoLog st) = st_uri st"
  "st_repoPath (useRepoLog st) = st_repoPath st"
  "st_workingFileName (useRepoLog st) = st_workingFileName st"
  "sha (getArgs (useRepoLog st)) = sha (getArgs st)"
  "showInView (getArgs (useRepoLog st)) = showInView (getArgs st)"
  "goBackCommand (getArgs (useRepoLog st)) = goBackCommand (getArgs st)"
  "sameBut (st_args st) h (st_heap (useRepoLog st)) = sameBut (st_args st) h (st_heap st)"
  "sameBut (st_args st) (st_heap (useRepoLog st)) h = sameBut (st_args st) (st_heap st) h"
  by (simp_all add: useRepoLog_def Let_def split: option.splits)

lemma useRepoLog_args:
  "getArgs (useRepoLog st) =
     (case repoLog (getArgs st) of
        None \<Rightarrow> getArgs st
      | Some l \<Rightarrow>
          (case commitsGet l (sha (getArgs st)) of
             None \<Rightarrow> (getArgs st)\<lparr>commit := None, repoLog := None\<rparr>
           | Some c \<Rightarrow> (getArgs st)\<lparr>commit := Some c\<rparr>))"
  by (simp add: useRepoLog_def Let_def split: option.splits)

lemma fetchLog_trace:
  "set (stepTrace (fetchLog env st)) \<subseteq> set (st_trace st) \<union> Collect isResolveEvent"
  by (cases "getLog env (st_repoPath st) 2 (sha (getArgs st))")
     (auto simp: fetchLog_def Let_def split: option.splits)

lemma fetchLog_heap: "sameBut (st_args st) (st_heap st) (stepHeap (fetchLog env st))"
  by (cases "getLog env (st_repoPath st) 2 (sha (getArgs st))")
     (auto simp: fetchLog_def Let_def split: option.splits)

lemma fetchLog_Continue:
  assumes "fetchLog env st = Continue st'"
  shows "st_args st' = st_args st" and "st_uri st' = st_uri st"
    and "showInView (getArgs st') = showInView (getArgs st)"
    and "goBackCommand (getArgs st') = goBackCommand (getArgs st)"
    and "sha (getArgs st') = sha (getArgs st)"
  using assms
  by (cases "getLog env (st_repoPath st) 2 (sha (getArgs st))";
      auto simp: fetchLog_def Let_def split: option.splits if_splits)+

lemma findCommit_trace:
  "set (stepTrace (findCommit env st)) \<subseteq> set (st_trace st) \<union> Collect isResolveEvent"
  using fetchLog_trace [of env "useRepoLog st"] by (auto simp: findCommit_def)

lemma findCommit_heap: "sameBut (st_args st) (st_heap st) (stepHeap (findCommit env st))"
  using fetchLog_heap [of "useRepoLog st" env] by (auto simp: findCommit_def)

lemma findCommit_Continue:
  assumes "findCommit env st = Continue st'"
  shows "st_args st' = st_args st" and "st_uri st' = st_uri st"
    and "showInView (getArgs st') = showInView (getArgs st)"
    and "goBackCommand (getArgs st') = goBackCommand (getArgs st)"
    and "sha (getArgs st') = sha (getArgs st)"
  using assms fetchLog_Continue [of env "useRepoLog st" st']
  by (auto simp: findCommit_def split: if_splits)


subsection \<open>Lines 64-125 as a whole\<close>

lemma resolveCommit_InrD:
  assumes "resolveCommit env h editor uri argp = Inr (st, c)"
  obtains g st0 st1 where "enter env h editor uri argp = Inr (g, st0)"
    and "resolveSha env editor g st0 = Inr st1"
    and "findCommit env st1 = Continue st"
    and "commit (getArgs st) = Some c"
  using assms
  by (auto simp: resolveCommit_def split: sum.splits prod.splits option.splits)

lemma resolveCommit_InlD:
  assumes "resolveCommit env h editor uri argp = Inl f"
  obtains (entry) "enter env h editor uri argp = Inl f"
  | (blame) g st0 where "enter env h editor uri argp = Inr (g, st0)"
      and "resolveSha env editor g st0 = Inl f"
  | (lookup) g st0 st1 where "enter env h editor uri argp = Inr (g, st0)"
      and "resolveSha env editor g st0 = Inr st1"
      and "tryCatch env (findCommit env st1) = Inl f"
  | (notFound) g st0 st1 st2 where "enter env h editor uri argp = Inr (g, st0)"
      and "resolveSha env editor g st0 = Inr st1"
      and "findCommit env st1 = Continue st2"
      and "commit (getArgs st2) = None"
      and "tryCatch env (returnMessage env CommitNotFoundWarning st2) = Inl f"
  using assms
  by (auto simp: resolveCommit_def split: sum.splits prod.splits option.splits)

lemma sameBut_entry:
  assumes "\<forall>q<next_args h. args_at h0 q = args_at h q" and "commit_at h0 = commit_at h"
    and "next_args h \<le> a" and "sameBut a h0 h1"
  shows "commit_at h1 = commit_at h" and "\<forall>q<next_args h. args_at h1 q = args_at h q"
    and "next_args h1 = next_args h0"
  using assms by (auto simp: sameBut_def)

lemma resolveCommit_Inr:
  assumes "resolveCommit env h editor uri argp = Inr (st, c)"
  shows "commit (getArgs st) = Some c"
    and "sha (getArgs st) \<noteq> None"
    and "showInView (getArgs st) = showInView (callerArgs h argp)"
    and "goBackCommand (getArgs st) = goBackCommand (callerArgs h argp)"
    and "commit_at (st_heap st) = commit_at h"
    and "next_args h \<le> st_args st"
    and "st_args st < next_args (st_heap st)"
    and "\<forall>q<next_args h. args_at (st_heap st) q = args_at h q"
    and "\<forall>ev\<in>set (st_trace st). isResolveEvent ev"
proof -
  from assms obtain g st0 st1 where e: "enter env h editor uri argp = Inr (g, st0)"
    and r: "resolveSha env editor g st0 = Inr st1"
    and f: "findCommit env st1 = Continue st"
    and c: "commit (getArgs st) = Some c"
    by (rule resolveCommit_InrD)
  note E = enter_Inr [OF e] and R = resolveSha_Inr [OF r] and F = findCommit_Continue [OF f]
  from findCommit_heap [of st1 env] f have fh: "sameBut (st_args st1) (st_heap st1) (st_heap st)"
    by simp
  from findCommit_trace [of env st1] f
  have ft: "set (st_trace st) \<subseteq> set (st_trace st1) \<union> Collect isResolveEvent"
    by simp
  have sb: "sameBut (st_args st0) (st_heap st0) (st_heap st)"
    using R(7) fh R(1) by (auto intro: sameBut_trans)
  show "commit (getArgs st) = Some c" by (rule c)
  show "sha (getArgs st) \<noteq> None" using F(5) R(6) by simp
  show "showInView (getArgs st) = showInView (callerArgs h argp)"
    using F(3) R(3) E(3) by simp
  show "goBackCommand (getArgs st) = goBackCommand (callerArgs h argp)"
    using F(4) R(4) E(3) by simp
  show "commit_at (st_heap st) = commit_at h"
    using sameBut_entry(1) [OF E(7) E(4) E(5) sb] .
  show "next_args h \<le> st_args st" using E(5) R(1) F(1) by simp
  show "st_args st < next_args (st_heap st)"
    using E(6) R(1) F(1) sameBut_entry(3) [OF E(7) E(4) E(5) sb] by simp
  show "\<forall>q<next_args h. args_at (st_heap st) q = args_at h q"
    using sameBut_entry(2) [OF E(7) E(4) E(5) sb] .
  show "\<forall>ev\<in>set (st_trace st). isResolveEvent ev"
    using E(1) R(8) ft by auto
qed

lemma resolveCommit_Inl:
  assumes "resolveCommit env h editor uri argp = Inl f"
  shows "commit_at (heap_out f) = commit_at h"
    and "\<forall>q<next_args h. args_at (heap_out f) q = args_at h q"
    and "next_args h \<le> next_args (heap_out f)"
    and "\<forall>ev\<in>set (events f). isResolveEvent ev"
proof -
  have "commit_at (heap_out f) = commit_at h \<and>
    (\<forall>q<next_args h. args_at (heap_out f) q = args_at h q) \<and>
    next_args h \<le> next_args (heap_out f) \<and>
    (\<forall>ev\<in>set (events f). isResolveEvent ev)"
    using assms
  proof (cases rule: resolveCommit_InlD)
    case entry
    from enter_Inl [OF entry] show ?thesis by auto
  next
    case (blame g st0)
    note E = enter_Inr [OF blame(1)] and R = resolveSha_Inl [OF blame(2)]
    from sameBut_entry [OF E(7) E(4) E(5) R(1)] E(1,5,6) R(2)
    show ?thesis by auto
  next
    case (lookup g st0 st1)
    note E = enter_Inr [OF lookup(1)] and R = resolveSha_Inr [OF lookup(2)]
      and T = tryCatch_Inl [OF lookup(3)]
    have sb: "sameBut (st_args st0) (st_heap st0) (heap_out f)"
      using R(7) findCommit_heap [of st1 env] R(1) T(1) by (auto intro: sameBut_trans)
    have tr: "set (events f) \<subseteq> set (st_trace st1) \<union> Collect isResolveEvent"
      using T(2) findCommit_trace [of env st1] by auto
    from sameBut_entry [OF E(7) E(4) E(5) sb] E(1,5,6) R(8) tr
    show ?thesis by auto
  next
    case (notFound g st0 st1 st2)
    note E = enter_Inr [OF notFound(1)] and R = resolveSha_Inr [OF notFound(2)]
      and T = tryCatch_Inl [OF notFound(5)]
    have sb: "sameBut (st_args st0) (st_heap st0) (heap_out f)"
      using R(7) findCommit_heap [of st1 env] R(1) T(1) notFound(3)
      by (auto intro: sameBut_trans)
    have tr: "set (events f) \<subseteq> set (st_trace st1) \<union> Collect isResolveEvent"
      using T(2) findCommit_trace [of env st1] notFound(3) by auto
    from sameBut_entry [OF E(7) E(4) E(5) sb] E(1,5,6) R(8) tr
    show ?thesis by auto
  qed
  then show "commit_at (heap_out f) = commit_at h"
    and "\<forall>q<next_args h. args_at (heap_out f) q = args_at h q"
    and "next_args h \<le> next_args (heap_out f)"
    and "\<forall>ev\<in>set (events f). isResolveEvent ev"
    by blast+
qed


subsection \<open>Lines 127-181\<close>

lemma buildGoBack_trace:
  "set (stepTrace (buildGoBack env c st)) \<subseteq> set (st_trace st) \<union> Collect isBranchQuery"
  "set (st_trace st) \<subseteq> set (stepTrace (buildGoBack env c st))"
  by (cases "getBranch env (commit_repoPath (getCommit st c))";
      auto simp: buildGoBack_def Let_def split: option.splits)+

lemma isBranchQuery_display: "isBranchQuery ev \<Longrightarrow> isDisplayEvent ev \<and> \<not> isPicker ev"
  by (cases ev) simp_all

lemma isResolveEvent_quiet: "isResolveEvent ev \<Longrightarrow> \<not> isPicker ev \<and> \<not> isBranchQuery ev"
  by (cases ev) simp_all

lemma isDisplayEvent_quiet: "isDisplayEvent ev \<Longrightarrow> \<not> isLogFetch ev"
  by (cases ev) simp_all

lemma buildGoBack_heap: "sameBut (st_args st) (st_heap st) (stepHeap (buildGoBack env c st))"
  by (cases "getBranch env (commit_repoPath (getCommit st c))")
     (auto simp: buildGoBack_def Let_def split: option.splits)

lemma buildGoBack_not_Return [simp]: "buildGoBack env c st \<noteq> Return f"
  by (cases "getBranch env (commit_repoPath (getCommit st c))")
     (auto simp: buildGoBack_def Let_def split: option.splits)

lemma buildGoBack_Continue:
  assumes "buildGoBack env c st = Continue st'"
  shows "st_args st' = st_args st" and "st_uri st' = st_uri st"
    and "showInView (getArgs st') = showInView (getArgs st)"
    and "sha (getArgs st') = sha (getArgs st)"
    and "commit (getArgs st') = commit (getArgs st)"
    and "repoLog (getArgs st') = repoLog (getArgs st)"
    and "getCommit st' = getCommit st"
  using assms
  by (cases "getBranch env (commit_repoPath (getCommit st c))";
      auto simp: buildGoBack_def Let_def fun_eq_iff split: option.splits if_splits)+

lemma buildGoBack_supplied:
  assumes "goBackCommand (getArgs st) = Some b"
  shows "buildGoBack env c st = Continue st"
  using assms by (simp add: buildGoBack_def)

lemma buildGoBack_queried:
  assumes "goBackCommand (getArgs st) = None"
  shows "GetBranch (commit_repoPath (getCommit st c)) \<in> set (stepTrace (buildGoBack env c st))"
    and "getBranch env (commit_repoPath (getCommit st c)) = Resolves (Some b) \<Longrightarrow>
      \<exists>st'. buildGoBack env c st = Continue st' \<and>
        goBackCommand (getArgs st') = Some (branchHistoryCommand env b (getCommit st c))"
    and "getBranch env (commit_repoPath (getCommit st c)) = Resolves None \<Longrightarrow>
      \<exists>st'. buildGoBack env c st = Continue st' \<and> goBackCommand (getArgs st') = None"
    and "awaited (getBranch env (commit_repoPath (getCommit st c))) = Inl e \<Longrightarrow>
      buildGoBack env c st = Thrown e (emit (GetBranch (commit_repoPath (getCommit st c))) st)"
  using assms
  by (cases "getBranch env (commit_repoPath (getCommit st c))";
      auto simp: buildGoBack_def Let_def split: option.splits)+

lemma showPicker_heap [simp]: "stepHeap (showPicker env c st) = st_heap st"
  by (cases "commitQuickPickShow env c (st_uri st) (goBackCommand (getArgs st))
        (currentCommand env c st) (repoLog (getArgs st))")
     (auto simp: showPicker_def Let_def split: option.splits pick.splits)

lemma showPicker_shown:
  "CommitQuickPickShow c (st_uri st) (goBackCommand (getArgs st)) (currentCommand env c st)
     (repoLog (getArgs st)) \<in> set (stepTrace (showPicker env c st))"
  by (cases "commitQuickPickShow env c (st_uri st) (goBackCommand (getArgs st))
        (currentCommand env c st) (repoLog (getArgs st))")
     (auto simp: showPicker_def Let_def split: option.splits pick.splits)

lemma showPicker_trace:
  "set (stepTrace (showPicker env c st)) \<subseteq> set (st_trace st) \<union>
     {ev. isDisplayEvent ev \<and> \<not> isBranchQuery ev \<and> (isPicker ev \<longrightarrow>
        ev = CommitQuickPickShow c (st_uri st) (goBackCommand (getArgs st))
          (currentCommand env c st) (repoLog (getArgs st)))}"
  by (cases "commitQuickPickShow env c (st_uri st) (goBackCommand (getArgs st))
        (currentCommand env c st) (repoLog (getArgs st))")
     (auto simp: showPicker_def Let_def split: option.splits pick.splits)

lemma showPicker_mono: "set (st_trace st) \<subseteq> set (stepTrace (showPicker env c st))"
  by (cases "commitQuickPickShow env c (st_uri st) (goBackCommand (getArgs st))
        (currentCommand env c st) (repoLog (getArgs st))")
     (auto simp: showPicker_def Let_def split: option.splits pick.splits)

lemma showPicker_not_Continue [simp]: "showPicker env c st \<noteq> Continue st'"
  by (cases "commitQuickPickShow env c (st_uri st) (goBackCommand (getArgs st))
        (currentCommand env c st) (repoLog (getArgs st))")
     (auto simp: showPicker_def Let_def split: option.splits pick.splits)

lemma showInSearchView_simps [simp]:
  "stepHeap (showInSearchView env c st) = st_heap st"
  "stepTrace (showInSearchView env c st) =
     st_trace st @ [SearchViewSearch (st_repoPath st) (commit_sha (getCommit st c)) Sha
       (searchLabel (getCommit st c))]"
  "showInSearchView env c st \<noteq> Continue st'"
  by (cases "searchViewSearch env (st_repoPath st) (commit_sha (getCommit st c)) Sha
        (searchLabel (getCommit st c))";
      simp add: showInSearchView_def Let_def)+

lemma showInSearchView_Return:
  assumes "searchViewSearch env (st_repoPath st) (commit_sha (getCommit st c)) Sha
     (searchLabel (getCommit st c)) = Resolves x"
  shows "\<exists>f. showInSearchView env c st = Return f \<and> outcome f = Resolved None"
  using assms by (simp add: showInSearchView_def Let_def)

lemma display_not_Continue [simp]: "display env c st \<noteq> Continue st'"
  by (auto simp: display_def Let_def split: step.splits)

text \<open>The store after lines 127-181: one commit field and the request object may differ.\<close>

lemma display_heap:
  "sameBut (st_args st) (st_heap (setWorkingFileName c st)) (stepHeap (display env c st))"
proof (cases "truthyBool (showInView (getArgs st))")
  case True
  then show ?thesis by (simp add: display_def)
next
  case False
  show ?thesis
  proof (cases "buildGoBack env c (setWorkingFileName c st)")
    case (Continue st2)
    with buildGoBack_heap [of "setWorkingFileName c st" env c] False
    show ?thesis by (simp add: display_def)
  next
    case (Return f)
    then show ?thesis by simp
  next
    case (Thrown e st2)
    with buildGoBack_heap [of "setWorkingFileName c st" env c] False
    show ?thesis by (simp add: display_def)
  qed
qed

lemma display_trace:
  "set (stepTrace (display env c st)) \<subseteq> set (st_trace st) \<union> Collect isDisplayEvent"
proof (cases "truthyBool (showInView (getArgs st))")
  case True
  then show ?thesis by (auto simp: display_def)
next
  case False
  show ?thesis
  proof (cases "buildGoBack env c (setWorkingFileName c st)")
    case (Continue st2)
    with buildGoBack_trace(1) [of env c "setWorkingFileName c st"]
      showPicker_trace [of env c st2] False
    show ?thesis by (auto simp: display_def dest: isBranchQuery_display)
  next
    case (Return f)
    then show ?thesis by simp
  next
    case (Thrown e st2)
    with buildGoBack_trace(1) [of env c "setWorkingFileName c st"] False
    show ?thesis by (auto simp: display_def dest: isBranchQuery_display)
  qed
qed

lemma display_mono: "set (st_trace st) \<subseteq> set (stepTrace (display env c st))"
proof (cases "truthyBool (showInView (getArgs st))")
  case True
  then show ?thesis by (auto simp: display_def)
next
  case False
  show ?thesis
  proof (cases "buildGoBack env c (setWorkingFileName c st)")
    case (Continue st2)
    with buildGoBack_trace(2) [of "setWorkingFileName c st" env c]
      showPicker_mono [of st2 env c] False
    show ?thesis by (auto simp: display_def)
  next
    case (Return f)
    then show ?thesis by simp
  next
    case (Thrown e st2)
    with buildGoBack_trace(2) [of "setWorkingFileName c st" env c] False
    show ?thesis by (auto simp: display_def)
  qed
qed

subsection \<open>The whole invocation\<close>

lemma execute_Inl: "resolveCommit env h editor uri argp = Inl f \<Longrightarrow> execute env h editor uri argp = f"
  by (simp add: execute_def)

lemma execute_Inr:
  assumes "resolveCommit env h editor uri argp = Inr (st, c)"
  shows "heap_out (execute env h editor uri argp) = stepHeap (display env c st)"
    and "events (execute env h editor uri argp) = stepTrace (display env c st) \<or>
      (\<exists>e. events (execute env h editor uri argp) = stepTrace (display env c st) @
         [LoggerError e className None, ShowMessage GenericError unableMessage]) \<or>
      (\<exists>e. events (execute env h editor uri argp) = stepTrace (display env c st) @
         [LoggerError e className None])"
    and "\<And>f. display env c st = Return f \<Longrightarrow> execute env h editor uri argp = f"
proof -
  from assms
  have x: "execute env h editor uri argp =
      (case tryCatch env (display env c st) of
         Inl f \<Rightarrow> f | Inr st1 \<Rightarrow> finish st1 (Resolved None))"
    by (simp add: execute_def)
  obtain f where t: "tryCatch env (display env c st) = Inl f"
    by (cases "display env c st") (simp_all add: tryCatch_def)
  with x have e: "execute env h editor uri argp = f"
    by simp
  from tryCatch_Inl(1) [OF t] e
  show "heap_out (execute env h editor uri argp) = stepHeap (display env c st)"
    by simp
  from tryCatch_Inl(2) [OF t] e
  show "events (execute env h editor uri argp) = stepTrace (display env c st) \<or>
      (\<exists>e. events (execute env h editor uri argp) = stepTrace (display env c st) @
         [LoggerError e className None, ShowMessage GenericError unableMessage]) \<or>
      (\<exists>e. events (execute env h editor uri argp) = stepTrace (display env c st) @
         [LoggerError e className None])"
    by simp
  show "display env c st = Return f' \<Longrightarrow> execute env h editor uri argp = f'" for f'
    using x by (simp add: tryCatch_def)
qed


lemma execute_mono:
  assumes "resolveCommit env h editor uri argp = Inr (st, c)"
  shows "set (st_trace st) \<subseteq> set (events (execute env h editor uri argp))"
  using execute_Inr(2) [OF assms] display_mono [of st env c] by auto

lemma execute_display_events:
  assumes "resolveCommit env h editor uri argp = Inr (st, c)"
  shows "set (events (execute env h editor uri argp)) \<subseteq> set (st_trace st) \<union> Collect isDisplayEvent"
  using execute_Inr(2) [OF assms] display_trace [of env c st] by auto

lemma resolveCommit_fast:
  assumes "getCommandUri env uri editor = Some u" and "fromUri env u = Resolves g"
    and "sha (callerArgs h argp) = Some s" and "commit (callerArgs h argp) = Some c"
    and "\<not> commit_isFile (commit_at h c)"
  shows "\<exists>st. resolveCommit env h editor uri argp = Inr (st, c) \<and> st_trace st = [FromUri u] \<and>
    getArgs st = callerArgs h argp \<and> st_repoPath st = uri_repoPath g \<and> st_uri st = u"
proof -
  from enter_ok [OF assms(1,2)] obtain st where e: "enter env h editor uri argp = Inr (g, st)"
    by blast
  note E = enter_Inr [OF e]
  from E(3) assms(3) have r: "resolveSha env editor g st = Inr st"
    by (simp add: resolveSha_has_sha)
  from E(3,4) assms(4,5) have "\<not> needsLookup st"
    by (simp add: needsLookup_def getCommit_def)
  then have f: "findCommit env st = Continue st"
    by (simp add: findCommit_def)
  from e r f E(3) assms(4) have "resolveCommit env h editor uri argp = Inr (st, c)"
    by (simp add: resolveCommit_def tryCatch_def)
  with E assms(1,2) show ?thesis by auto
qed

lemma fetchLog_issued:
  assumes "repoLog (getArgs st) = None"
  shows "GetLog (st_repoPath st) 2 (sha (getArgs st)) \<in> set (stepTrace (fetchLog env st))"
  using assms
  by (cases "getLog env (st_repoPath st) 2 (sha (getArgs st))")
     (auto simp: fetchLog_def Let_def split: option.splits)

lemma tryCatch_mono:
  assumes "tryCatch env s = Inl f"
  shows "set (stepTrace s) \<subseteq> set (events f)"
  using tryCatch_Inl(2) [OF assms] by auto

lemma notFound_message:
  assumes "tryCatch env (returnMessage env CommitNotFoundWarning st) = Inl f"
  shows "ShowMessage CommitNotFoundWarning unableMessage \<in> set (events f)"
  using tryCatch_mono [OF assms] by auto

lemma tryCatch_total: "(\<exists>f. tryCatch env s = Inl f) \<or> (\<exists>st. s = Continue st)"
  by (cases s) (simp_all add: tryCatch_def)

lemma display_branch_mono:
  assumes "\<not> truthyBool (showInView (getArgs st))"
  shows "set (stepTrace (buildGoBack env c (setWorkingFileName c st)))
     \<subseteq> set (stepTrace (display env c st))"
proof (cases "buildGoBack env c (setWorkingFileName c st)")
  case (Continue st2)
  with showPicker_mono [of st2 env c] assms show ?thesis by (auto simp: display_def)
next
  case (Return f)
  then show ?thesis by simp
next
  case (Thrown e st2)
  with assms show ?thesis by (auto simp: display_def)
qed

lemma display_shown:
  assumes "\<not> truthyBool (showInView (getArgs st))"
    and "buildGoBack env c (setWorkingFileName c st) = Continue st2"
  shows "CommitQuickPickShow c (st_uri st2) (goBackCommand (getArgs st2))
      (currentCommand env c st2) (repoLog (getArgs st2)) \<in> set (stepTrace (display env c st))"
    and "stepHeap (display env c st) = st_heap st2"
  using assms showPicker_shown [of c st2 env] by (auto simp: display_def)

lemma display_picker:
  assumes "ev \<in> set (stepTrace (display env c st))" and "isPicker ev"
    and "\<forall>ev\<in>set (st_trace st). \<not> isPicker ev"
  shows "\<not> truthyBool (showInView (getArgs st)) \<and>
    (\<exists>st2. buildGoBack env c (setWorkingFileName c st) = Continue st2 \<and>
       ev = CommitQuickPickShow c (st_uri st2) (goBackCommand (getArgs st2))
         (currentCommand env c st2) (repoLog (getArgs st2)))"
proof (cases "truthyBool (showInView (getArgs st))")
  case True
  with assms show ?thesis by (auto simp: display_def)
next
  case False
  show ?thesis
  proof (cases "buildGoBack env c (setWorkingFileName c st)")
    case (Continue st2)
    from buildGoBack_trace(1) [of env c "setWorkingFileName c st"] Continue assms(3)
    have "\<forall>ev\<in>set (st_trace st2). \<not> isPicker ev"
      by (auto dest: isBranchQuery_display)
    with showPicker_trace [of env c st2] assms(1,2) Continue False
    show ?thesis by (auto simp: display_def)
  next
    case (Return f)
    then show ?thesis by simp
  next
    case (Thrown e st2)
    from buildGoBack_trace(1) [of env c "setWorkingFileName c st"] Thrown assms(3)
    have "\<forall>ev\<in>set (st_trace st2). \<not> isPicker ev"
      by (auto dest: isBranchQuery_display)
    with assms(1,2) Thrown False show ?thesis by (auto simp: display_def)
  qed
qed

lemma display_branch_queries:
  assumes "ev \<in> set (stepTrace (display env c st))" and "isBranchQuery ev"
    and "\<forall>ev\<in>set (st_trace st). \<not> isBranchQuery ev"
  shows "ev \<in> set (stepTrace (buildGoBack env c (setWorkingFileName c st))) \<and>
    goBackCommand (getArgs st) = None"
proof (cases "truthyBool (showInView (getArgs st))")
  case True
  with assms show ?thesis by (auto simp: display_def)
next
  case False
  have none: "goBackCommand (getArgs st) = None"
  proof (rule ccontr)
    assume "goBackCommand (getArgs st) \<noteq> None"
    then obtain b where "goBackCommand (getArgs (setWorkingFileName c st)) = Some b"
      by auto
    from buildGoBack_supplied [OF this, of env c] False
    have "display env c st = showPicker env c (setWorkingFileName c st)"
      by (simp add: display_def)
    with showPicker_trace [of env c "setWorkingFileName c st"] assms show False
      by auto
  qed
  show ?thesis
  proof (cases "buildGoBack env c (setWorkingFileName c st)")
    case (Continue st2)
    with showPicker_trace [of env c st2] assms(1,2) False none
    show ?thesis by (auto simp: display_def)
  next
    case (Return f)
    then show ?thesis by simp
  next
    case (Thrown e st2)
    with assms(1) False none show ?thesis by (auto simp: display_def)
  qed
qed

lemma execute_pickers:
  assumes "resolveCommit env h editor uri argp = Inr (st, c)"
    and "ev \<in> set (events (execute env h editor uri argp))" and "isPicker ev"
  shows "ev \<in> set (stepTrace (display env c st))"
  using execute_Inr(2) [OF assms(1)] assms(2,3) by auto

lemma execute_branch_queries:
  assumes "resolveCommit env h editor uri argp = Inr (st, c)"
    and "ev \<in> set (events (execute env h editor uri argp))" and "isBranchQuery ev"
  shows "ev \<in> set (stepTrace (display env c st))"
  using execute_Inr(2) [OF assms(1)] assms(2,3) by auto

lemma execute_display_mono:
  assumes "resolveCommit env h editor uri argp = Inr (st, c)"
  shows "set (stepTrace (display env c st)) \<subseteq> set (events (execute env h editor uri argp))"
  using execute_Inr(2) [OF assms] by auto

lemma resolved_commit_fields:
  assumes "resolveCommit env h editor uri argp = Inr (st, c)"
  shows "getCommit st c = commit_at h c"
    and "commit_sha (getCommit (setWorkingFileName c st) c) = commit_sha (commit_at h c)"
    and "commit_shortSha (getCommit (setWorkingFileName c st) c) = commit_shortSha (commit_at h c)"
    and "commit_repoPath (getCommit (setWorkingFileName c st) c) = commit_repoPath (commit_at h c)"
proof -
  from resolveCommit_Inr(5) [OF assms] show g: "getCommit st c = commit_at h c"
    by (simp add: getCommit_def)
  from g show "commit_sha (getCommit (setWorkingFileName c st) c) = commit_sha (commit_at h c)"
    and "commit_shortSha (getCommit (setWorkingFileName c st) c) = commit_shortSha (commit_at h c)"
    and "commit_repoPath (getCommit (setWorkingFileName c st) c) = commit_repoPath (commit_at h c)"
    by (simp_all add: setWorkingFileName_commit)
qed

lemma execute_args_frame:
  "\<forall>q<next_args h. args_at (heap_out (execute env h editor uri argp)) q = args_at h q"
proof (cases "resolveCommit env h editor uri argp")
  case (Inl f)
  with resolveCommit_Inl(2) [OF Inl] execute_Inl [OF Inl] show ?thesis by simp
next
  case (Inr p)
  obtain st c where p: "p = (st, c)" by (cases p)
  note rc = Inr [unfolded p]
  note R = resolveCommit_Inr [OF rc]
  from display_heap [of st c env] execute_Inr(1) [OF rc]
  have "\<forall>q. q \<noteq> st_args st \<longrightarrow>
      args_at (heap_out (execute env h editor uri argp)) q = args_at (st_heap st) q"
    by (simp add: sameBut_def)
  with R(6,8) show ?thesis by auto
qed

lemma execute_commit_frame:
  "resolveCommit env h editor uri argp = Inl f \<Longrightarrow>
     commit_at (heap_out (execute env h editor uri argp)) = commit_at h"
  "resolveCommit env h editor uri argp = Inr (st, c) \<Longrightarrow>
     commit_at (heap_out (execute env h editor uri argp)) x =
       getCommit (setWorkingFileName c st) x"
proof -
  assume a: "resolveCommit env h editor uri argp = Inl f"
  with resolveCommit_Inl(1) [OF a] execute_Inl [OF a]
  show "commit_at (heap_out (execute env h editor uri argp)) = commit_at h"
    by simp
next
  assume a: "resolveCommit env h editor uri argp = Inr (st, c)"
  from display_heap [of st c env] execute_Inr(1) [OF a]
  show "commit_at (heap_out (execute env h editor uri argp)) x =
       getCommit (setWorkingFileName c st) x"
    by (simp add: sameBut_def getCommit_def)
qed

lemma execute_commit_cases:
  "commit_at (heap_out (execute env h editor uri argp)) x = commit_at h x \<or>
   commit_workingFileName (commit_at h x) = None"
proof (cases "resolveCommit env h editor uri argp")
  case (Inl f)
  with execute_commit_frame(1) [OF Inl] show ?thesis by simp
next
  case (Inr p)
  obtain st c where p: "p = (st, c)" by (cases p)
  note rc = Inr [unfolded p]
  from resolveCommit_Inr(5) [OF rc] have "getCommit st = commit_at h"
    by (simp add: getCommit_def fun_eq_iff)
  with execute_commit_frame(2) [OF rc, of x] show ?thesis
    by (auto simp: setWorkingFileName_commit split: if_splits)
qed

lemma blameBody_Continue_trace:
  assumes "blameBody env g n st = Continue st'"
  shows "st_trace st' = st_trace st @ [GetBlameForLine g n]"
  using assms
  by (cases "getBlameForLine env g n")
     (auto simp: blameBody_def Let_def split: option.splits if_splits)

lemma resolveSha_no_fetch:
  assumes "enter env h editor uri argp = Inr (g, st0)"
    and "resolveSha env editor g st0 = Inr st1"
  shows "\<forall>ev\<in>set (st_trace st1). \<not> isLogFetch ev"
proof -
  from enter_Inr(1) [OF assms(1)] obtain u where u: "st_trace st0 = [FromUri u]"
    by blast
  from assms(2) have "st1 = st0 \<or> (\<exists>ed. blameBody env g (line ed) st0 = Continue st1)"
    by (auto simp: resolveSha_def Let_def split: if_splits option.splits step.splits)
  then show ?thesis
  proof
    assume "st1 = st0"
    with u show ?thesis by simp
  next
    assume "\<exists>ed. blameBody env g (line ed) st0 = Continue st1"
    then obtain ed where "blameBody env g (line ed) st0 = Continue st1"
      by blast
    from blameBody_Continue_trace [OF this] u show ?thesis by simp
  qed
qed

lemma fetchLog_ContinueD:
  assumes "fetchLog env st = Continue st'" and "repoLog (getArgs st) = None"
  shows "\<exists>l. getLog env (st_repoPath st) 2 (sha (getArgs st)) = Resolves (Some l) \<and>
    commit (getArgs st') = commitsGet l (sha (getArgs st)) \<and> repoLog (getArgs st') = None"
  using assms
  by (cases "getLog env (st_repoPath st) 2 (sha (getArgs st))")
     (auto simp: fetchLog_def Let_def split: option.splits)

lemma findCommit_events:
  assumes "enter env h editor uri argp = Inr (g, st0)"
    and "resolveSha env editor g st0 = Inr st1"
  shows "set (stepTrace (findCommit env st1)) \<subseteq> set (events (execute env h editor uri argp))"
proof (cases "resolveCommit env h editor uri argp")
  case (Inl f)
  from Inl assms have "tryCatch env (findCommit env st1) = Inl f \<or>
      (\<exists>st2. findCommit env st1 = Continue st2 \<and>
         tryCatch env (returnMessage env CommitNotFoundWarning st2) = Inl f)"
    by (auto simp: resolveCommit_def split: sum.splits option.splits)
  then have "set (stepTrace (findCommit env st1)) \<subseteq> set (events f)"
  proof
    assume "tryCatch env (findCommit env st1) = Inl f"
    from tryCatch_mono [OF this] show ?thesis .
  next
    assume "\<exists>st2. findCommit env st1 = Continue st2 \<and>
         tryCatch env (returnMessage env CommitNotFoundWarning st2) = Inl f"
    then obtain st2 where c: "findCommit env st1 = Continue st2"
      and t: "tryCatch env (returnMessage env CommitNotFoundWarning st2) = Inl f"
      by blast
    from tryCatch_mono [OF t] c show ?thesis by auto
  qed
  with execute_Inl [OF Inl] show ?thesis by simp
next
  case (Inr p)
  obtain st2 c where p: "p = (st2, c)" by (cases p)
  with Inr assms have "findCommit env st1 = Continue st2"
    by (auto simp: resolveCommit_def split: sum.splits option.splits)
  with execute_mono [of env h editor uri argp st2 c] Inr p show ?thesis by auto
qed

subsection \<open>When the invocation resolves\<close>

lemma returnInTry_resolves:
  assumes "\<forall>e. p \<noteq> Rejects e" and "returnInTry p st = Return f"
  shows "isResolved (outcome f)"
  using assms by (cases p) auto

lemma returnMessage_resolves:
  assumes "\<forall>k m e. showMessage env k m \<noteq> Rejects e" and "returnMessage env k st = Return f"
  shows "isResolved (outcome f)"
  using assms returnInTry_resolves [of "showMessage env k unableMessage"]
  by (simp add: returnMessage_def)

lemma catchClause_resolves:
  assumes "\<forall>k m e. showMessage env k m \<noteq> Rejects e"
    and "(\<forall>e c x. loggerError env e c x = None) \<and>
      (\<forall>m e. showMessage env GenericError m \<noteq> Throws e)"
  shows "isResolved (outcome (catchClause env ctx e st))"
  using assms
  by (cases "showMessage env GenericError unableMessage") (simp_all add: catchClause_outcome)

lemma tryCatch_resolves:
  assumes "\<forall>k m e. showMessage env k m \<noteq> Rejects e"
    and "(\<forall>e c x. loggerError env e c x = None) \<and>
      (\<forall>m e. showMessage env GenericError m \<noteq> Throws e)"
    and "\<forall>f. s = Return f \<longrightarrow> isResolved (outcome f)"
    and "tryCatch env s = Inl f"
  shows "isResolved (outcome f)"
  using assms(3,4) catchClause_resolves [OF assms(1,2)]
  by (cases s) (auto simp: tryCatch_def)

lemma blameBody_resolves:
  assumes "\<forall>k m e. showMessage env k m \<noteq> Rejects e" and "blameBody env g n st = Return f"
  shows "isResolved (outcome f)"
  using assms(2) returnMessage_resolves [OF assms(1)]
  by (cases "getBlameForLine env g n")
     (auto simp: blameBody_def Let_def split: option.splits if_splits)

lemma resolveSha_resolves:
  assumes "\<forall>k m e. showMessage env k m \<noteq> Rejects e"
    and "(\<forall>e c x. loggerError env e c x = None) \<and>
      (\<forall>m e. showMessage env GenericError m \<noteq> Throws e)"
    and "resolveSha env editor g st = Inl f"
  shows "isResolved (outcome f)"
proof -
  from assms(3) consider (silent) "f = finish st (Resolved None)"
    | (returned) ed where "blameBody env g (line ed) st = Return f"
    | (caught) ed e st1 where "f = catchClause env (Some (line ed)) e st1"
    by (auto simp: resolveSha_def Let_def split: if_splits option.splits step.splits)
  then show ?thesis
  proof cases
    case silent
    then show ?thesis by simp
  next
    case returned
    from blameBody_resolves [OF assms(1) this] show ?thesis .
  next
    case caught
    with catchClause_resolves [OF assms(1,2)] show ?thesis by simp
  qed
qed

lemma findCommit_resolves:
  assumes "\<forall>k m e. showMessage env k m \<noteq> Rejects e" and "findCommit env st = Return f"
  shows "isResolved (outcome f)"
  using assms(2) returnMessage_resolves [OF assms(1)]
  by (cases "getLog env (st_repoPath (useRepoLog st)) 2 (sha (getArgs (useRepoLog st)))")
     (auto simp: findCommit_def fetchLog_def Let_def split: option.splits if_splits)

lemma enter_resolves:
  assumes "\<forall>u. getCommandUri env uri editor = Some u \<longrightarrow> (\<exists>g. fromUri env u = Resolves g)"
    and "enter env h editor uri argp = Inl f"
  shows "isResolved (outcome f)"
  using enter_Inl(2) [OF assms(2)] assms(1) by auto

lemma resolveCommit_resolves:
  assumes "\<forall>u. getCommandUri env uri editor = Some u \<longrightarrow> (\<exists>g. fromUri env u = Resolves g)"
    and "\<forall>k m e. showMessage env k m \<noteq> Rejects e"
    and "(\<forall>e c x. loggerError env e c x = None) \<and>
      (\<forall>m e. showMessage env GenericError m \<noteq> Throws e)"
    and "resolveCommit env h editor uri argp = Inl f"
  shows "isResolved (outcome f)"
  using assms(4)
proof (cases rule: resolveCommit_InlD)
  case entry
  from enter_resolves [OF assms(1) this] show ?thesis .
next
  case (blame g st0)
  from resolveSha_resolves [OF assms(2,3) blame(2)] show ?thesis .
next
  case (lookup g st0 st1)
  from tryCatch_resolves [OF assms(2,3) _ lookup(3)] findCommit_resolves [OF assms(2)]
  show ?thesis by blast
next
  case (notFound g st0 st1 st2)
  from tryCatch_resolves [OF assms(2,3) _ notFound(5)] returnMessage_resolves [OF assms(2)]
  show ?thesis by blast
qed

lemma showPicker_resolves:
  assumes "\<forall>it e. pickExecute env it \<noteq> Rejects e"
    and "\<forall>n g a e. executeCommand env n g a \<noteq> Rejects e"
    and "showPicker env c st = Return f"
  shows "isResolved (outcome f)"
proof (cases "commitQuickPickShow env c (st_uri st) (goBackCommand (getArgs st))
        (currentCommand env c st) (repoLog (getArgs st))")
  case (Throws e)
  with assms(3) show ?thesis by (simp add: showPicker_def Let_def)
next
  case (Rejects e)
  with assms(3) show ?thesis by (simp add: showPicker_def Let_def)
next
  case (Resolves x)
  show ?thesis
  proof (cases x)
    case None
    with Resolves assms(3) show ?thesis by (auto simp: showPicker_def Let_def)
  next
    case (Some pk)
    show ?thesis
    proof (cases pk)
      case (CommitWithFileStatusQuickPickItem pc ps)
      with Some Resolves assms(3) obtain n g a st'
        where "returnInTry (executeCommand env n g a) st' = Return f"
        by (auto simp: showPicker_def Let_def)
      from returnInTry_resolves [OF _ this] assms(2) show ?thesis by blast
    next
      case (OtherQuickPickItem it)
      with Some Resolves assms(3) obtain st'
        where "returnInTry (pickExecute env it) st' = Return f"
        by (auto simp: showPicker_def Let_def)
      from returnInTry_resolves [OF _ this] assms(1) show ?thesis by blast
    qed
  qed
qed

lemma showInSearchView_resolves:
  assumes "showInSearchView env c st = Return f"
  shows "isResolved (outcome f)"
  using assms
  by (cases "searchViewSearch env (st_repoPath st) (commit_sha (getCommit st c)) Sha
        (searchLabel (getCommit st c))")
     (auto simp: showInSearchView_def Let_def)

lemma display_resolves:
  assumes "\<forall>it e. pickExecute env it \<noteq> Rejects e"
    and "\<forall>n g a e. executeCommand env n g a \<noteq> Rejects e"
    and "display env c st = Return f"
  shows "isResolved (outcome f)"
proof (cases "truthyBool (showInView (getArgs st))")
  case True
  with assms(3) showInSearchView_resolves [of env c "setWorkingFileName c st" f]
  show ?thesis by (simp add: display_def)
next
  case False
  show ?thesis
  proof (cases "buildGoBack env c (setWorkingFileName c st)")
    case (Continue st2)
    with assms(3) False showPicker_resolves [OF assms(1,2), of c st2 f]
    show ?thesis by (simp add: display_def)
  next
    case (Return f')
    then show ?thesis by simp
  next
    case (Thrown e st2)
    with assms(3) False show ?thesis by (simp add: display_def)
  qed
qed

subsection \<open>What becomes of an exception\<close>

lemma quiet_emit:
  assumes "\<forall>x\<in>set (st_trace st). quiet env x" and "quiet env ev"
  shows "\<forall>x\<in>set (st_trace (emit ev st)). quiet env x"
  using assms by simp

lemma thrown_emit:
  assumes "\<forall>x\<in>set (st_trace st). quiet env x" and "raised env ev = Some e"
    and "\<not> isLoggerError ev"
  shows "stepOk env (Thrown e (emit ev st))"
  using assms by simp

lemma returnInTry_ok:
  assumes "\<forall>x\<in>set (st_trace st). quiet env x"
    and "raised env ev = (case p of Throws e \<Rightarrow> Some e | Rejects e \<Rightarrow> None | Resolves v \<Rightarrow> None)"
    and "\<not> isLoggerError ev"
  shows "stepOk env (returnInTry p (emit ev st))"
  using assms by (cases p) (simp_all add: quiet_def)

lemma returnMessage_ok:
  assumes "\<forall>x\<in>set (st_trace st). quiet env x"
  shows "stepOk env (returnMessage env k st)"
  unfolding returnMessage_def using assms by (intro returnInTry_ok) simp_all

lemma blameBody_ok:
  assumes "\<forall>x\<in>set (st_trace st). quiet env x"
  shows "stepOk env (blameBody env g n st)"
proof -
  let ?ev = "GetBlameForLine g n"
  show ?thesis
  proof (cases "awaited (getBlameForLine env g n)")
    case (Inl e)
    then have "blameBody env g n st = Thrown e (emit ?ev st)"
      by (simp add: blameBody_def)
    with thrown_emit [OF assms, of ?ev e] Inl show ?thesis by simp
  next
    case (Inr x)
    with assms have q: "\<forall>x\<in>set (st_trace (emit ?ev st)). quiet env x"
      by (simp add: quiet_def)
    from Inr q returnMessage_ok [OF q] show ?thesis
      by (auto simp: blameBody_def Let_def split: option.splits)
  qed
qed

lemma fetchLog_ok:
  assumes "\<forall>x\<in>set (st_trace st). quiet env x"
  shows "stepOk env (fetchLog env st)"
proof (cases "repoLog (getArgs st) = None")
  case False
  with assms show ?thesis by (auto simp: fetchLog_def)
next
  case True
  let ?ev = "GetLog (st_repoPath st) 2 (sha (getArgs st))"
  show ?thesis
  proof (cases "awaited (getLog env (st_repoPath st) 2 (sha (getArgs st)))")
    case (Inl e)
    with True have "fetchLog env st = Thrown e (emit ?ev st)"
      by (simp add: fetchLog_def)
    with thrown_emit [OF assms, of ?ev e] Inl show ?thesis by simp
  next
    case (Inr x)
    with assms have q: "\<forall>x\<in>set (st_trace (emit ?ev st)). quiet env x"
      by (simp add: quiet_def)
    from Inr True q returnMessage_ok [OF q] show ?thesis
      by (auto simp: fetchLog_def Let_def split: option.splits)
  qed
qed

lemma findCommit_ok:
  assumes "\<forall>x\<in>set (st_trace st). quiet env x"
  shows "stepOk env (findCommit env st)"
  using assms fetchLog_ok [of "useRepoLog st" env] by (simp add: findCommit_def)

lemma buildGoBack_ok:
  assumes "\<forall>x\<in>set (st_trace st). quiet env x"
  shows "stepOk env (buildGoBack env c st)"
proof (cases "goBackCommand (getArgs st) = None")
  case False
  with assms show ?thesis by (auto simp: buildGoBack_def)
next
  case True
  let ?ev = "GetBranch (commit_repoPath (getCommit st c))"
  show ?thesis
  proof (cases "awaited (getBranch env (commit_repoPath (getCommit st c)))")
    case (Inl e)
    with True have "buildGoBack env c st = Thrown e (emit ?ev st)"
      by (simp add: buildGoBack_def)
    with thrown_emit [OF assms, of ?ev e] Inl show ?thesis by simp
  next
    case (Inr x)
    with assms have q: "\<forall>x\<in>set (st_trace (emit ?ev st)). quiet env x"
      by (simp add: quiet_def)
    from Inr True q show ?thesis
      by (auto simp: buildGoBack_def Let_def split: option.splits)
  qed
qed

lemma showInSearchView_ok:
  assumes "\<forall>x\<in>set (st_trace st). quiet env x"
  shows "stepOk env (showInSearchView env c st)"
proof -
  let ?ev = "SearchViewSearch (st_repoPath st) (commit_sha (getCommit st c)) Sha
    (searchLabel (getCommit st c))"
  show ?thesis
  proof (cases "awaited (searchViewSearch env (st_repoPath st) (commit_sha (getCommit st c)) Sha
      (searchLabel (getCommit st c)))")
    case (Inl e)
    then have "showInSearchView env c st = Thrown e (emit ?ev st)"
      by (simp add: showInSearchView_def Let_def)
    with thrown_emit [OF assms, of ?ev e] Inl show ?thesis by simp
  next
    case (Inr x)
    with assms have "\<forall>x\<in>set (st_trace (emit ?ev st)). quiet env x"
      by (simp add: quiet_def)
    with Inr show ?thesis
      by (simp add: showInSearchView_def Let_def)
  qed
qed

lemma showPicker_ok:
  assumes "\<forall>x\<in>set (st_trace st). quiet env x"
  shows "stepOk env (showPicker env c st)"
proof -
  let ?ev = "CommitQuickPickShow c (st_uri st) (goBackCommand (getArgs st))
    (currentCommand env c st) (repoLog (getArgs st))"
  show ?thesis
  proof (cases "awaited (commitQuickPickShow env c (st_uri st) (goBackCommand (getArgs st))
      (currentCommand env c st) (repoLog (getArgs st)))")
    case (Inl e)
    then have "showPicker env c st = Thrown e (emit ?ev st)"
      by (simp add: showPicker_def Let_def)
    with thrown_emit [OF assms, of ?ev e] Inl show ?thesis by simp
  next
    case (Inr x)
    with assms have q: "\<forall>x\<in>set (st_trace (emit ?ev st)). quiet env x"
      by (simp add: quiet_def)
    show ?thesis
    proof (cases x)
      case None
      with Inr q show ?thesis by (simp add: showPicker_def Let_def)
    next
      case (Some pk)
      show ?thesis
      proof (cases pk)
        case (CommitWithFileStatusQuickPickItem pc ps)
        with Some Inr returnInTry_ok [where
            ev = "ExecuteCommand ShowQuickCommitFileDetails
              (toGitUri env (getCommit (emit ?ev st) pc))
              \<lparr>fd_commit = pc, fd_sha = ps, fd_goBackCommand = currentCommand env c st\<rparr>"
            and p = "executeCommand env ShowQuickCommitFileDetails
              (toGitUri env (getCommit (emit ?ev st) pc))
              \<lparr>fd_commit = pc, fd_sha = ps, fd_goBackCommand = currentCommand env c st\<rparr>",
            OF q]
        show ?thesis by (simp add: showPicker_def Let_def)
      next
        case (OtherQuickPickItem it)
        with Some Inr returnInTry_ok [where ev = "PickExecute it" and p = "pickExecute env it",
            OF q]
        show ?thesis by (simp add: showPicker_def Let_def)
      qed
    qed
  qed
qed

lemma display_ok:
  assumes "\<forall>x\<in>set (st_trace st). quiet env x"
  shows "stepOk env (display env c st)"
proof (cases "truthyBool (showInView (getArgs st))")
  case True
  with showInSearchView_ok [of "setWorkingFileName c st" env c] assms
  show ?thesis by (simp add: display_def)
next
  case False
  from assms have b: "stepOk env (buildGoBack env c (setWorkingFileName c st))"
    by (intro buildGoBack_ok) simp
  show ?thesis
  proof (cases "buildGoBack env c (setWorkingFileName c st)")
    case (Continue st2)
    with b showPicker_ok [of st2 env c] False show ?thesis
      by (simp add: display_def)
  next
    case (Return f)
    then show ?thesis by simp
  next
    case (Thrown e st2)
    with b False show ?thesis by (simp add: display_def)
  qed
qed

lemma catch_absorbed:
  assumes "\<forall>e c x. loggerError env e c x = None" and "stepOk env (Thrown e st)"
  shows "absorbed env (catchClause env ctx e st)"
proof -
  from assms(2) obtain tr ev where "st_trace st = tr @ [ev]"
    and "\<forall>x\<in>set tr. quiet env x" and "raised env ev = Some e" and "\<not> isLoggerError ev"
    by auto
  with assms(1) show ?thesis
    unfolding absorbed_def
    by (intro disjI2 exI [of _ tr] exI [of _ ev] exI [of _ e] exI [of _ ctx])
       (simp add: catchClause_outcome)
qed

lemma tryCatch_absorbed:
  assumes "\<forall>e c x. loggerError env e c x = None" and "stepOk env s"
    and "tryCatch env s = Inl f"
  shows "absorbed env f"
proof (cases s)
  case (Continue st)
  with assms(3) show ?thesis by (simp add: tryCatch_def)
next
  case (Return f')
  with assms(2,3) show ?thesis by (simp add: tryCatch_def absorbed_def)
next
  case (Thrown e st)
  with assms(3) have "f = catchClause env None e st"
    by (simp add: tryCatch_def)
  with catch_absorbed [OF assms(1), of e st None] assms(2) Thrown show ?thesis
    by simp
qed

lemma enter_quiet:
  "enter env h editor uri argp = Inr (g, st) \<Longrightarrow> \<forall>x\<in>set (st_trace st). quiet env x"
  "enter env h editor uri argp = Inl f \<Longrightarrow> absorbed env f"
proof -
  assume "enter env h editor uri argp = Inr (g, st)"
  from enter_Inr(1) [OF this] show "\<forall>x\<in>set (st_trace st). quiet env x"
    by (auto simp: quiet_def)
next
  assume "enter env h editor uri argp = Inl f"
  from enter_Inl(2) [OF this] show "absorbed env f"
    by (auto simp: absorbed_def quiet_def)
qed

lemma resolveSha_absorbed:
  assumes "\<forall>e c x. loggerError env e c x = None" and "\<forall>x\<in>set (st_trace st). quiet env x"
  shows "resolveSha env editor g st = Inr st' \<Longrightarrow> \<forall>x\<in>set (st_trace st'). quiet env x"
    and "resolveSha env editor g st = Inl f \<Longrightarrow> absorbed env f"
proof -
  assume "resolveSha env editor g st = Inr st'"
  then have "st' = st \<or> (\<exists>ed. blameBody env g (line ed) st = Continue st')"
    by (auto simp: resolveSha_def Let_def split: if_splits option.splits step.splits)
  then show "\<forall>x\<in>set (st_trace st'). quiet env x"
  proof
    assume "st' = st"
    with assms(2) show ?thesis by simp
  next
    assume "\<exists>ed. blameBody env g (line ed) st = Continue st'"
    then obtain ed where "blameBody env g (line ed) st = Continue st'" by blast
    with blameBody_ok [OF assms(2), of g "line ed"] show ?thesis by simp
  qed
next
  assume "resolveSha env editor g st = Inl f"
  then consider (silent) "f = finish st (Resolved None)"
    | (returned) ed where "blameBody env g (line ed) st = Return f"
    | (caught) ed e st1 where "blameBody env g (line ed) st = Thrown e st1"
        "f = catchClause env (Some (line ed)) e st1"
    by (auto simp: resolveSha_def Let_def split: if_splits option.splits step.splits)
  then show "absorbed env f"
  proof cases
    case silent
    with assms(2) show ?thesis by (simp add: absorbed_def)
  next
    case returned
    with blameBody_ok [OF assms(2), of g "line ed"] show ?thesis
      by (simp add: absorbed_def)
  next
    case caught
    with blameBody_ok [OF assms(2), of g "line ed"]
      catch_absorbed [OF assms(1), of e st1 "Some (line ed)"]
    show ?thesis by simp
  qed
qed

lemma resolveCommit_absorbed:
  assumes "\<forall>e c x. loggerError env e c x = None"
  shows "resolveCommit env h editor uri argp = Inr (st, c) \<Longrightarrow>
      \<forall>x\<in>set (st_trace st). quiet env x"
    and "resolveCommit env h editor uri argp = Inl f \<Longrightarrow> absorbed env f"
proof -
  assume "resolveCommit env h editor uri argp = Inr (st, c)"
  then obtain g st0 st1 where e: "enter env h editor uri argp = Inr (g, st0)"
    and r: "resolveSha env editor g st0 = Inr st1"
    and f: "findCommit env st1 = Continue st"
    by (rule resolveCommit_InrD)
  from resolveSha_absorbed(1) [OF assms enter_quiet(1) [OF e] r]
  have "\<forall>x\<in>set (st_trace st1). quiet env x" .
  from findCommit_ok [OF this] f show "\<forall>x\<in>set (st_trace st). quiet env x"
    by simp
next
  assume "resolveCommit env h editor uri argp = Inl f"
  then show "absorbed env f"
  proof (cases rule: resolveCommit_InlD)
    case entry
    from enter_quiet(2) [OF this] show ?thesis .
  next
    case (blame g st0)
    from resolveSha_absorbed(2) [OF assms enter_quiet(1) [OF blame(1)] blame(2)]
    show ?thesis .
  next
    case (lookup g st0 st1)
    from resolveSha_absorbed(1) [OF assms enter_quiet(1) [OF lookup(1)] lookup(2)]
    have "\<forall>x\<in>set (st_trace st1). quiet env x" .
    from tryCatch_absorbed [OF assms findCommit_ok [OF this] lookup(3)]
    show ?thesis .
  next
    case (notFound g st0 st1 st2)
    from resolveSha_absorbed(1) [OF assms enter_quiet(1) [OF notFound(1)] notFound(2)]
    have "\<forall>x\<in>set (st_trace st1). quiet env x" .
    from findCommit_ok [OF this] notFound(3) have "\<forall>x\<in>set (st_trace st2). quiet env x"
      by simp
    from tryCatch_absorbed [OF assms returnMessage_ok [OF this] notFound(5)]
    show ?thesis .
  qed
qed

lemma execute_absorbed:
  assumes "\<forall>e c x. loggerError env e c x = None"
  shows "absorbed env (execute env h editor uri argp)"
proof (cases "resolveCommit env h editor uri argp")
  case (Inl f)
  from resolveCommit_absorbed(2) [OF assms Inl] execute_Inl [OF Inl] show ?thesis
    by simp
next
  case (Inr p)
  obtain st c where p: "p = (st, c)" by (cases p)
  note rc = Inr [unfolded p]
  from resolveCommit_absorbed(1) [OF assms rc]
  have ok: "stepOk env (display env c st)" by (rule display_ok)
  obtain f where t: "tryCatch env (display env c st) = Inl f"
    by (cases "display env c st") (simp_all add: tryCatch_def)
  with rc have "execute env h editor uri argp = f"
    by (simp add: execute_def)
  with tryCatch_absorbed [OF assms ok t] show ?thesis by simp
qed

section \<open>The claims\<close>

text \<open>
  C8. A request without a revision id, made with no active editor or with a negative
  cursor line, ends silently: the trace holds no message, no picker and no backend query,
  and the result is absent. The uri of the invocation is resolved before the editor is
  looked at (lines 65-68), so the result is that of lines 75 and 78 when that resolution
  completes.
\<close>

theorem C8_silent_without_position:
  assumes "sha (callerArgs h argp) = None"
    and "editor = None \<or> (\<exists>ed. editor = Some ed \<and> line ed < 0)"
  shows "(\<forall>ev\<in>set (events (execute env h editor uri argp)).
       \<not> isMessage ev \<and> \<not> isPicker ev \<and> \<not> isBackendQuery ev) \<and>
    ((\<forall>u. getCommandUri env uri editor = Some u \<longrightarrow> (\<exists>g. fromUri env u = Resolves g)) \<longrightarrow>
       outcome (execute env h editor uri argp) = Resolved None)"
proof (cases "enter env h editor uri argp")
  case (Inl f)
  then have "execute env h editor uri argp = f"
    by (simp add: execute_def resolveCommit_def)
  with enter_Inl(2) [OF Inl] show ?thesis by auto
next
  case (Inr p)
  obtain g st where p: "p = (g, st)" by (cases p)
  note e = Inr [unfolded p]
  note E = enter_Inr [OF e]
  from E(3) assms have "resolveSha env editor g st = Inl (finish st (Resolved None))"
    by (auto simp: resolveSha_def)
  with e have "execute env h editor uri argp = finish st (Resolved None)"
    by (simp add: execute_def resolveCommit_def)
  with E(1) show ?thesis by auto
qed

theorem C8_witness:
  "sha (callerArgs sampleHeap (Some 0)) = None \<and>
   getCommandUri sampleEnv (Some sampleUri) None = Some sampleUri \<and>
   fromUri sampleEnv sampleUri = Resolves sampleGitUri \<and>
   \<not> isBackendQuery (hd (events (execute sampleEnv sampleHeap None (Some sampleUri) (Some 0)))) \<and>
   outcome (execute sampleEnv sampleHeap None (Some sampleUri) (Some 0)) = Resolved None"
proof -
  have "events (execute sampleEnv sampleHeap None (Some sampleUri) (Some 0)) \<noteq> []"
    by (simp add: phase_defs state_defs sample_defs Let_def)
  then have "hd (events (execute sampleEnv sampleHeap None (Some sampleUri) (Some 0)))
      \<in> set (events (execute sampleEnv sampleHeap None (Some sampleUri) (Some 0)))"
    by simp
  with C8_silent_without_position [of sampleHeap "Some 0" None sampleEnv "Some sampleUri"]
  show ?thesis by (simp add: sample_defs)
qed

text \<open>
  C9. A request without a revision id whose blame lookup returns the uncommitted
  placeholder shows the "line uncommitted" warning and never shows a picker.
\<close>

theorem C9_uncommitted_line_warns:
  assumes "sha (callerArgs h argp) = None"
    and "getCommandUri env uri (Some ed) = Some u"
    and "fromUri env u = Resolves g"
    and "0 \<le> line ed"
    and "getBlameForLine env g (line ed) = Resolves (Some b)"
    and "commit_isUncommitted (commit_at h (blame_commit b))"
  shows "ShowMessage LineUncommittedWarning unableMessage
       \<in> set (events (execute env h (Some ed) uri argp)) \<and>
    (\<forall>ev\<in>set (events (execute env h (Some ed) uri argp)). \<not> isPicker ev)"
proof -
  from enter_ok [OF assms(2,3)] obtain st where e: "enter env h (Some ed) uri argp = Inr (g, st)"
    by blast
  note E = enter_Inr [OF e]
  let ?st1 = "emit (GetBlameForLine g (line ed)) st"
  from assms(5,6) E(4)
  have b: "blameBody env g (line ed) st = returnMessage env LineUncommittedWarning ?st1"
    by (simp add: blameBody_def getCommit_def)
  obtain f where r: "resolveSha env (Some ed) g st = Inl f"
    and m: "ShowMessage LineUncommittedWarning unableMessage \<in> set (events f)"
  proof (cases "returnMessage env LineUncommittedWarning ?st1")
    case (Continue st')
    then show ?thesis by simp
  next
    case (Return f)
    with returnMessage_simps(1) [of env LineUncommittedWarning ?st1]
    have "ShowMessage LineUncommittedWarning unableMessage \<in> set (events f)"
      by simp
    moreover from Return b E(3) assms(1,4) have "resolveSha env (Some ed) g st = Inl f"
      by (simp add: resolveSha_def)
    ultimately show ?thesis by (rule that [rotated])
  next
    case (Thrown e st')
    with returnMessage_simps(1) [of env LineUncommittedWarning ?st1]
    have "ShowMessage LineUncommittedWarning unableMessage \<in>
        set (events (catchClause env (Some (line ed)) e st'))"
      by simp
    moreover from Thrown b E(3) assms(1,4)
    have "resolveSha env (Some ed) g st = Inl (catchClause env (Some (line ed)) e st')"
      by (simp add: resolveSha_def)
    ultimately show ?thesis by (rule that [rotated])
  qed
  from e r have rc: "resolveCommit env h (Some ed) uri argp = Inl f"
    by (simp add: resolveCommit_def)
  then have x: "execute env h (Some ed) uri argp = f"
    by (rule execute_Inl)
  from resolveCommit_Inl(4) [OF rc] have "\<forall>ev\<in>set (events f). \<not> isPicker ev"
    by (auto dest: isResolveEvent_quiet)
  with m x show ?thesis by simp
qed

theorem C9_witness:
  "sha (callerArgs sampleHeap (Some 0)) = None \<and>
   getBlameForLine sampleEnv sampleGitUri 7 = Resolves (Some (GitBlameLine 2)) \<and>
   commit_isUncommitted (commit_at sampleHeap 2) \<and>
   ShowMessage LineUncommittedWarning unableMessage
     \<in> set (events (execute sampleEnv sampleHeap (Some (TextEditor 7)) (Some sampleUri) (Some 0)))"
  using C9_uncommitted_line_warns [of sampleHeap "Some 0" sampleEnv "Some sampleUri"
      "TextEditor 7" sampleUri sampleGitUri "GitBlameLine 2"]
  by (simp add: sample_defs)

text \<open>
  C5. A request that supplies a revision id (the scenario has \<open>deadbeef\<close>) with no
  commit and no cached log issues a log fetch of two entries anchored at that id; when the
  fetch returns no batch, or a batch without the id, the "commit not found" warning is
  shown and no picker appears.
\<close>

theorem C5_direct_sha_fetches_log:
  assumes "getCommandUri env uri editor = Some u" and "fromUri env u = Resolves g"
    and "sha (callerArgs h argp) = Some s"
    and "commit (callerArgs h argp) = None"
    and "repoLog (callerArgs h argp) = None"
  shows "GetLog (uri_repoPath g) 2 (Some s) \<in> set (events (execute env h editor uri argp)) \<and>
    (getLog env (uri_repoPath g) 2 (Some s) = Resolves None \<or>
     (\<exists>l. getLog env (uri_repoPath g) 2 (Some s) = Resolves (Some l) \<and>
        map_of (log_commits l) s = None) \<longrightarrow>
     ShowMessage CommitNotFoundWarning unableMessage
       \<in> set (events (execute env h editor uri argp)) \<and>
     (\<forall>ev\<in>set (events (execute env h editor uri argp)). \<not> isPicker ev))"
proof -
  let ?r = "execute env h editor uri argp"
  from enter_ok [OF assms(1,2)] obtain st where e: "enter env h editor uri argp = Inr (g, st)"
    by blast
  note E = enter_Inr [OF e]
  from E(3) assms(3) have r: "resolveSha env editor g st = Inr st"
    by (simp add: resolveSha_has_sha)
  from E(3) assms(4) have n: "needsLookup st"
    by (simp add: needsLookup_def)
  from E(3) assms(5) have u: "useRepoLog st = st"
    by (simp add: useRepoLog_def)
  from n u have fc: "findCommit env st = fetchLog env st"
    by (simp add: findCommit_def)
  from E(3) assms(5) have nl: "repoLog (getArgs st) = None"
    by simp
  from fetchLog_issued [OF nl, of env] E(2,3) assms(3) fc
  have issued: "GetLog (uri_repoPath g) 2 (Some s) \<in> set (stepTrace (findCommit env st))"
    by simp
  have fetched: "GetLog (uri_repoPath g) 2 (Some s) \<in> set (events ?r)"
  proof (cases "resolveCommit env h editor uri argp")
    case (Inl f)
    from Inl e r have "tryCatch env (findCommit env st) = Inl f \<or>
        (\<exists>st2. findCommit env st = Continue st2 \<and>
           tryCatch env (returnMessage env CommitNotFoundWarning st2) = Inl f)"
      by (auto simp: resolveCommit_def split: sum.splits option.splits)
    then have "GetLog (uri_repoPath g) 2 (Some s) \<in> set (events f)"
    proof
      assume "tryCatch env (findCommit env st) = Inl f"
      from tryCatch_mono [OF this] issued show ?thesis by auto
    next
      assume "\<exists>st2. findCommit env st = Continue st2 \<and>
           tryCatch env (returnMessage env CommitNotFoundWarning st2) = Inl f"
      then obtain st2 where c: "findCommit env st = Continue st2"
        and t: "tryCatch env (returnMessage env CommitNotFoundWarning st2) = Inl f"
        by blast
      from tryCatch_mono [OF t] issued c show ?thesis by auto
    qed
    with execute_Inl [OF Inl] show ?thesis by simp
  next
    case (Inr p)
    obtain st2 c where p: "p = (st2, c)" by (cases p)
    with Inr e r have "findCommit env st = Continue st2"
      by (auto simp: resolveCommit_def split: sum.splits option.splits)
    with issued have "GetLog (uri_repoPath g) 2 (Some s) \<in> set (st_trace st2)"
      by simp
    with execute_mono [of env h editor uri argp st2 c] Inr p show ?thesis by auto
  qed
  have missing: "ShowMessage CommitNotFoundWarning unableMessage \<in> set (events ?r) \<and>
      (\<forall>ev\<in>set (events ?r). \<not> isPicker ev)"
    if m: "getLog env (uri_repoPath g) 2 (Some s) = Resolves None \<or>
     (\<exists>l. getLog env (uri_repoPath g) 2 (Some s) = Resolves (Some l) \<and>
        map_of (log_commits l) s = None)"
  proof -
    have "\<exists>f. resolveCommit env h editor uri argp = Inl f \<and>
        ShowMessage CommitNotFoundWarning unableMessage \<in> set (events f)"
      using m
    proof
      assume a: "getLog env (uri_repoPath g) 2 (Some s) = Resolves None"
      with E(2,3) assms(3) nl fc
      have s1: "findCommit env st = returnMessage env CommitNotFoundWarning
          (emit (GetLog (uri_repoPath g) 2 (Some s)) st)"
        by (simp add: fetchLog_def)
      from tryCatch_total [of env "findCommit env st"] s1
      obtain f where t: "tryCatch env (findCommit env st) = Inl f"
        by auto
      from t s1 have "ShowMessage CommitNotFoundWarning unableMessage \<in> set (events f)"
        by (simp add: notFound_message)
      moreover from e r t have "resolveCommit env h editor uri argp = Inl f"
        by (simp add: resolveCommit_def)
      ultimately show ?thesis by blast
    next
      assume "\<exists>l. getLog env (uri_repoPath g) 2 (Some s) = Resolves (Some l) \<and>
        map_of (log_commits l) s = None"
      then obtain l where a: "getLog env (uri_repoPath g) 2 (Some s) = Resolves (Some l)"
        and b: "map_of (log_commits l) s = None"
        by blast
      let ?st2 = "setArgs (\<lambda>a. a\<lparr>commit := commitsGet l (sha a)\<rparr>)
          (emit (GetLog (uri_repoPath g) 2 (Some s)) st)"
      from a E(2,3) assms(3) nl fc have s1: "findCommit env st = Continue ?st2"
        by (simp add: fetchLog_def)
      from b E(3) assms(3) have s2: "commit (getArgs ?st2) = None"
        by simp
      from tryCatch_total [of env "returnMessage env CommitNotFoundWarning ?st2"]
      obtain f where t: "tryCatch env (returnMessage env CommitNotFoundWarning ?st2) = Inl f"
        by auto
      from e r s1 s2 t have "resolveCommit env h editor uri argp = Inl f"
        by (simp add: resolveCommit_def tryCatch_def)
      with notFound_message [OF t] show ?thesis by blast
    qed
    then obtain f where rc: "resolveCommit env h editor uri argp = Inl f"
      and msg: "ShowMessage CommitNotFoundWarning unableMessage \<in> set (events f)"
      by blast
    from resolveCommit_Inl(4) [OF rc] have "\<forall>ev\<in>set (events f). \<not> isPicker ev"
      by (auto dest: isResolveEvent_quiet)
    with msg execute_Inl [OF rc] show ?thesis by simp
  qed
  from fetched missing show ?thesis by blast
qed

theorem C5_witness:
  "sha (callerArgs sampleHeap (Some 1)) = Some ''deadbeef'' \<and>
   commit (callerArgs sampleHeap (Some 1)) = None \<and>
   repoLog (callerArgs sampleHeap (Some 1)) = None \<and>
   getLog sampleEnv (Some ''/r'') 2 (Some ''deadbeef'') = Resolves None \<and>
   GetLog (Some ''/r'') 2 (Some ''deadbeef'')
     \<in> set (events (execute sampleEnv sampleHeap None (Some sampleUri) (Some 1))) \<and>
   ShowMessage CommitNotFoundWarning unableMessage
     \<in> set (events (execute sampleEnv sampleHeap None (Some sampleUri) (Some 1)))"
  using C5_direct_sha_fetches_log [of sampleEnv "Some sampleUri" None sampleUri sampleGitUri
      sampleHeap "Some 1" "''deadbeef''"]
  by (simp add: sample_defs)

text \<open>
  C7, as amended. A request that supplies a revision id together with a full commit, and no
  cached log, never issues a log fetch. (Without a revision id the supplied commit is
  replaced by the blamed one at line 95, and a file-scoped blamed commit is looked up.)
\<close>

theorem C7_full_commit_no_fetch:
  assumes "sha (callerArgs h argp) = Some s"
    and "commit (callerArgs h argp) = Some c"
    and "\<not> commit_isFile (commit_at h c)"
    and "repoLog (callerArgs h argp) = None"
  shows "\<forall>ev\<in>set (events (execute env h editor uri argp)). \<not> isLogFetch ev"
proof (cases "enter env h editor uri argp")
  case (Inl f)
  then have "execute env h editor uri argp = f"
    by (simp add: execute_def resolveCommit_def)
  with enter_Inl(2) [OF Inl] show ?thesis by auto
next
  case (Inr p)
  obtain g st0 where p: "p = (g, st0)" by (cases p)
  from enter_Inr(1) [OF Inr [unfolded p]] obtain u
    where u: "getCommandUri env uri editor = Some u" "fromUri env u = Resolves g"
    by blast
  from resolveCommit_fast [OF u assms(1,2,3)] obtain st
    where rc: "resolveCommit env h editor uri argp = Inr (st, c)"
      and tr: "st_trace st = [FromUri u]"
    by blast
  from execute_display_events [OF rc] tr show ?thesis
    by (auto dest: isDisplayEvent_quiet)
qed

theorem C7_witness:
  "sha (callerArgs sampleHeap (Some 2)) = Some ''abc123'' \<and>
   commit (callerArgs sampleHeap (Some 2)) = Some 0 \<and>
   \<not> commit_isFile (commit_at sampleHeap 0) \<and>
   repoLog (callerArgs sampleHeap (Some 2)) = None \<and>
   \<not> isLogFetch (hd (events (execute sampleEnv sampleHeap None (Some sampleUri) (Some 2))))"
proof -
  have "events (execute sampleEnv sampleHeap None (Some sampleUri) (Some 2)) \<noteq> []"
    by (simp add: phase_defs state_defs sample_defs Let_def)
  then have "hd (events (execute sampleEnv sampleHeap None (Some sampleUri) (Some 2)))
      \<in> set (events (execute sampleEnv sampleHeap None (Some sampleUri) (Some 2)))"
    by simp
  with C7_full_commit_no_fetch [of sampleHeap "Some 2" "''abc123''" 0 sampleEnv None
      "Some sampleUri"]
  show ?thesis by (simp add: sample_defs)
qed

text \<open>
  The claim without the revision id fails: request 3 supplies the full commit 0 and nothing
  else, the editor is at line 3, blame returns the file-scoped commit 1, and a log fetch
  follows.
\<close>

theorem C7_counterexample:
  "commit (callerArgs sampleHeap (Some 3)) = Some 0 \<and>
   \<not> commit_isFile (commit_at sampleHeap 0) \<and>
   repoLog (callerArgs sampleHeap (Some 3)) = None \<and>
   events (execute sampleEnv sampleHeap (Some (TextEditor 3)) (Some sampleUri) (Some 3)) =
     [FromUri sampleUri, GetBlameForLine sampleGitUri 3, GetLog (Some ''/r'') 2 (Some ''b1a4e''),
      ShowMessage CommitNotFoundWarning unableMessage] \<and>
   isLogFetch (GetLog (Some ''/r'') 2 (Some ''b1a4e''))"
  by (simp add: phase_defs state_defs sample_defs Let_def)


text \<open>
  C6. With \<open>showInView\<close> set and a resolved commit \<open>c\<close>, the commit is sent to the
  search view with the repository path, the commit's revision id and search-by-sha; no
  picker is shown, whatever the search does; and the result is absent when the search
  completes.
\<close>

theorem C6_show_in_view:
  assumes "resolveCommit env h editor uri argp = Inr (st, c)"
    and "truthyBool (showInView (callerArgs h argp))"
  shows "SearchViewSearch (st_repoPath st) (commit_sha (commit_at h c)) Sha
        (searchLabel (commit_at h c)) \<in> set (events (execute env h editor uri argp)) \<and>
    (\<forall>ev\<in>set (events (execute env h editor uri argp)). \<not> isPicker ev) \<and>
    (searchViewSearch env (st_repoPath st) (commit_sha (commit_at h c)) Sha
        (searchLabel (commit_at h c)) = Resolves () \<longrightarrow>
     outcome (execute env h editor uri argp) = Resolved None)"
proof -
  let ?r = "execute env h editor uri argp"
  let ?st1 = "setWorkingFileName c st"
  let ?ev = "SearchViewSearch (st_repoPath st) (commit_sha (commit_at h c)) Sha
        (searchLabel (commit_at h c))"
  note R = resolveCommit_Inr [OF assms(1)] and C = resolved_commit_fields [OF assms(1)]
  from C(3) have lbl: "searchLabel (getCommit ?st1 c) = searchLabel (commit_at h c)"
    by (simp add: searchLabel_def)
  from R(3) assms(2) have d: "display env c st = showInSearchView env c ?st1"
    by (simp add: display_def)
  with C(2) lbl have tr: "stepTrace (display env c st) = st_trace st @ [?ev]"
    by simp
  with execute_display_mono [OF assms(1)] have shown: "?ev \<in> set (events ?r)"
    by auto
  have quiet: "\<forall>ev\<in>set (events ?r). \<not> isPicker ev"
  proof
    fix ev assume ev: "ev \<in> set (events ?r)"
    show "\<not> isPicker ev"
    proof
      assume p: "isPicker ev"
      from execute_pickers [OF assms(1) ev p] tr R(9) p show False
        by (auto dest: isResolveEvent_quiet)
    qed
  qed
  have absent: "outcome ?r = Resolved None"
    if s: "searchViewSearch env (st_repoPath st) (commit_sha (commit_at h c)) Sha
        (searchLabel (commit_at h c)) = Resolves ()"
  proof -
    from s C(2) lbl
    have "searchViewSearch env (st_repoPath ?st1) (commit_sha (getCommit ?st1 c)) Sha
        (searchLabel (getCommit ?st1 c)) = Resolves ()"
      by simp
    from showInSearchView_Return [OF this] d obtain f
      where f: "display env c st = Return f" "outcome f = Resolved None"
      by auto
    from execute_Inr(3) [OF assms(1) f(1)] f(2) show ?thesis by simp
  qed
  from shown quiet absent show ?thesis by blast
qed

theorem C6_witness:
  "truthyBool (showInView (callerArgs sampleHeap (Some 5))) \<and>
   SearchViewSearch (Some ''/r'') ''abc123'' Sha (searchLabel sampleCommit)
     \<in> set (events (execute sampleEnv sampleHeap None (Some sampleUri) (Some 5))) \<and>
   outcome (execute sampleEnv sampleHeap None (Some sampleUri) (Some 5)) = Resolved None"
proof -
  from resolveCommit_fast [of sampleEnv "Some sampleUri" None sampleUri sampleGitUri sampleHeap
      "Some 5" "''abc123''" 0]
  obtain st where r: "resolveCommit sampleEnv sampleHeap None (Some sampleUri) (Some 5) = Inr (st, 0)"
    and p: "st_repoPath st = uri_repoPath sampleGitUri"
    by (auto simp: sample_defs)
  have v: "truthyBool (showInView (callerArgs sampleHeap (Some 5)))"
    by (simp add: sample_defs)
  from C6_show_in_view [OF r v] p v show ?thesis
    by (simp add: sample_defs)
qed

text \<open>
  C4. For an invocation that reaches the construction of the back command (a commit \<open>c\<close>
  is resolved and \<open>showInView\<close> is not set): with an inbound back command no branch is
  queried and the picker is shown with that command; without one the branch of the
  commit's repository path is queried, and when a branch is found the picker is shown
  with a back command whose target is \<open>ShowQuickCurrentBranchHistory\<close>, whose only
  argument is the uri derived from the commit and whose description names the branch;
  when no branch is found the picker is shown with no back command. No picker is ever
  shown with another back command than the one of \<open>specGoBack\<close>.
\<close>

theorem C4_back_command:
  assumes "resolveCommit env h editor uri argp = Inr (st, c)"
    and "\<not> truthyBool (showInView (callerArgs h argp))"
  shows "(goBackCommand (callerArgs h argp) \<noteq> None \<longrightarrow>
       (\<forall>ev\<in>set (events (execute env h editor uri argp)). \<not> isBranchQuery ev)) \<and>
    (goBackCommand (callerArgs h argp) = None \<longrightarrow>
       GetBranch (commit_repoPath (commit_at h c))
         \<in> set (events (execute env h editor uri argp))) \<and>
    (\<forall>c' u' b' cur' l'.
       CommitQuickPickShow c' u' b' cur' l' \<in> set (events (execute env h editor uri argp)) \<longrightarrow>
       b' = specGoBack env (goBackCommand (callerArgs h argp))
              (getCommit (setWorkingFileName c st) c)) \<and>
    (goBackCommand (callerArgs h argp) \<noteq> None \<or>
     (\<exists>x. getBranch env (commit_repoPath (commit_at h c)) = Resolves x) \<longrightarrow>
       (\<exists>cur l. CommitQuickPickShow c (st_uri st)
          (specGoBack env (goBackCommand (callerArgs h argp))
             (getCommit (setWorkingFileName c st) c)) cur l
         \<in> set (events (execute env h editor uri argp)))) \<and>
    (\<forall>b. goBackCommand (callerArgs h argp) = Some b \<longrightarrow>
       (\<exists>cur l. CommitQuickPickShow c (st_uri st) (Some b) cur l
          \<in> set (events (execute env h editor uri argp)))) \<and>
    (\<forall>br. goBackCommand (callerArgs h argp) = None \<and>
        getBranch env (commit_repoPath (commit_at h c)) = Resolves (Some br) \<longrightarrow>
       (\<exists>item cur l. CommitQuickPickShow c (st_uri st) (Some item) cur l
          \<in> set (events (execute env h editor uri argp)) \<and>
          item_command item = ShowQuickCurrentBranchHistory \<and>
          item_args item = [ArgGitUri (toGitUri env (getCommit (setWorkingFileName c st) c))] \<and>
          item_description item =
            strings_pad env (glyph_Dash env) 2 3 @ '' to '' @ branch_name br @ '' history'')) \<and>
    (goBackCommand (callerArgs h argp) = None \<and>
        getBranch env (commit_repoPath (commit_at h c)) = Resolves None \<longrightarrow>
       (\<exists>cur l. CommitQuickPickShow c (st_uri st) None cur l
          \<in> set (events (execute env h editor uri argp))))"
proof -
  let ?r = "execute env h editor uri argp"
  let ?st1 = "setWorkingFileName c st"
  let ?inbound = "goBackCommand (callerArgs h argp)"
  let ?p = "commit_repoPath (commit_at h c)"
  note R = resolveCommit_Inr [OF assms(1)] and C = resolved_commit_fields [OF assms(1)]
  from R(3) assms(2) have nv: "\<not> truthyBool (showInView (getArgs st))"
    by simp
  from R(4) have gb: "goBackCommand (getArgs ?st1) = ?inbound"
    by simp
  from R(9) have quiet: "\<forall>ev\<in>set (st_trace st). \<not> isPicker ev"
    and quietB: "\<forall>ev\<in>set (st_trace st). \<not> isBranchQuery ev"
    by (auto dest: isResolveEvent_quiet)
  \<comment> \<open>what the back command is after lines 139-152, when control gets to line 155\<close>
  have built: "goBackCommand (getArgs st2) = specGoBack env ?inbound (getCommit ?st1 c)"
    if b: "buildGoBack env c ?st1 = Continue st2" for st2
  proof (cases ?inbound)
    case (Some x)
    with gb buildGoBack_supplied [of ?st1 x env c] b show ?thesis
      by (simp add: specGoBack_def)
  next
    case None
    with gb have n: "goBackCommand (getArgs ?st1) = None" by simp
    show ?thesis
    proof (cases "getBranch env (commit_repoPath (getCommit ?st1 c))")
      case (Throws e)
      with buildGoBack_queried(4) [OF n, of env c e] b show ?thesis by simp
    next
      case (Rejects e)
      with buildGoBack_queried(4) [OF n, of env c e] b show ?thesis by simp
    next
      case (Resolves x)
      show ?thesis
      proof (cases x)
        case None
        with Resolves buildGoBack_queried(3) [OF n, of env c] b \<open>?inbound = None\<close>
        show ?thesis by (auto simp: specGoBack_def)
      next
        case (Some br)
        with Resolves buildGoBack_queried(2) [OF n, of env c br] b \<open>?inbound = None\<close>
        show ?thesis
          by (auto simp: specGoBack_def branchHistoryCommand_def goBackLabel_def)
      qed
    qed
  qed
  have reused: "\<forall>ev\<in>set (events ?r). \<not> isBranchQuery ev" if s: "?inbound \<noteq> None"
  proof
    fix ev assume ev: "ev \<in> set (events ?r)"
    show "\<not> isBranchQuery ev"
    proof
      assume q: "isBranchQuery ev"
      from display_branch_queries [OF execute_branch_queries [OF assms(1) ev q] q quietB]
        R(4) s show False by simp
    qed
  qed
  have queried: "GetBranch ?p \<in> set (events ?r)" if n: "?inbound = None"
  proof -
    from n gb have "goBackCommand (getArgs ?st1) = None" by simp
    from buildGoBack_queried(1) [OF this, of c env] C(4)
    have "GetBranch ?p \<in> set (stepTrace (buildGoBack env c ?st1))"
      by simp
    with display_branch_mono [OF nv, of env c] execute_display_mono [OF assms(1)]
    show ?thesis by blast
  qed
  have carried: "b' = specGoBack env ?inbound (getCommit ?st1 c)"
    if ev: "CommitQuickPickShow c' u' b' cur' l' \<in> set (events ?r)" for c' u' b' cur' l'
  proof -
    from execute_pickers [OF assms(1) ev] have "CommitQuickPickShow c' u' b' cur' l'
        \<in> set (stepTrace (display env c st))"
      by simp
    from display_picker [OF this _ quiet] obtain st2
      where b: "buildGoBack env c ?st1 = Continue st2"
        and "b' = goBackCommand (getArgs st2)"
      by auto
    with built [OF b] show ?thesis by simp
  qed
  have shown: "\<exists>cur l. CommitQuickPickShow c (st_uri st)
      (specGoBack env ?inbound (getCommit ?st1 c)) cur l \<in> set (events ?r)"
    if s: "?inbound \<noteq> None \<or> (\<exists>x. getBranch env ?p = Resolves x)"
  proof -
    have "\<exists>st2. buildGoBack env c ?st1 = Continue st2"
    proof (cases ?inbound)
      case (Some x)
      with gb buildGoBack_supplied [of ?st1 x env c] show ?thesis by simp
    next
      case None
      with s obtain x where x: "getBranch env ?p = Resolves x" by auto
      from None gb have n: "goBackCommand (getArgs ?st1) = None" by simp
      from x C(4) buildGoBack_queried(2,3) [OF n, of env c] show ?thesis
        by (cases x) auto
    qed
    then obtain st2 where b: "buildGoBack env c ?st1 = Continue st2" by blast
    from display_shown(1) [OF nv b] execute_display_mono [OF assms(1)]
      built [OF b] buildGoBack_Continue(2) [OF b]
    show ?thesis by auto
  qed
  have inbound: "\<exists>cur l. CommitQuickPickShow c (st_uri st) (Some b) cur l \<in> set (events ?r)"
    if s: "?inbound = Some b" for b
    using shown s by (simp add: specGoBack_def)
  have found: "\<exists>item cur l. CommitQuickPickShow c (st_uri st) (Some item) cur l
          \<in> set (events ?r) \<and>
          item_command item = ShowQuickCurrentBranchHistory \<and>
          item_args item = [ArgGitUri (toGitUri env (getCommit ?st1 c))] \<and>
          item_description item =
            strings_pad env (glyph_Dash env) 2 3 @ '' to '' @ branch_name br @ '' history''"
    if s: "?inbound = None \<and> getBranch env ?p = Resolves (Some br)" for br
  proof -
    from s C(4) have "specGoBack env ?inbound (getCommit ?st1 c) =
        Some (CommandQuickPickItem (''go back '' @ glyph_ArrowBack env)
          (strings_pad env (glyph_Dash env) 2 3 @ '' to '' @ branch_name br @ '' history'')
          ShowQuickCurrentBranchHistory [ArgGitUri (toGitUri env (getCommit ?st1 c))])"
      by (simp add: specGoBack_def)
    with shown s show ?thesis by fastforce
  qed
  have missing: "\<exists>cur l. CommitQuickPickShow c (st_uri st) None cur l \<in> set (events ?r)"
    if s: "?inbound = None \<and> getBranch env ?p = Resolves None"
  proof -
    from s C(4) have "specGoBack env ?inbound (getCommit ?st1 c) = None"
      by (simp add: specGoBack_def)
    with shown s show ?thesis by fastforce
  qed
  from reused queried carried shown inbound found missing show ?thesis by blast
qed

theorem C4_witness:
  "goBackCommand (callerArgs sampleHeap (Some 6)) = Some backItem \<and>
   \<not> truthyBool (showInView (callerArgs sampleHeap (Some 6))) \<and>
   \<not> isBranchQuery (hd (events (execute sampleEnv sampleHeap None (Some sampleUri) (Some 6)))) \<and>
   (\<exists>cur l. CommitQuickPickShow 0 sampleUri (Some backItem) cur l
      \<in> set (events (execute sampleEnv sampleHeap None (Some sampleUri) (Some 6)))) \<and>
   goBackCommand (callerArgs sampleHeap (Some 2)) = None \<and>
   getBranch sampleEnv ''/r'' = Resolves (Some (GitBranch ''main'')) \<and>
   GetBranch ''/r'' \<in> set (events (execute sampleEnv sampleHeap None (Some sampleUri) (Some 2))) \<and>
   (\<exists>item cur l. CommitQuickPickShow 0 sampleUri (Some item) cur l
      \<in> set (events (execute sampleEnv sampleHeap None (Some sampleUri) (Some 2))) \<and>
      item_command item = ShowQuickCurrentBranchHistory \<and>
      item_args item = [ArgGitUri \<lparr>uri_fsPath = ''/r/a.ts'', uri_repoPath = Some ''/r'',
        uri_sha = Some ''abc123''\<rparr>] \<and>
      item_description item = ''  -    to main history'')"
proof -
  have "events (execute sampleEnv sampleHeap None (Some sampleUri) (Some 6)) \<noteq> []"
    by (simp add: phase_defs state_defs sample_defs Let_def)
  then have m: "hd (events (execute sampleEnv sampleHeap None (Some sampleUri) (Some 6)))
      \<in> set (events (execute sampleEnv sampleHeap None (Some sampleUri) (Some 6)))"
    by simp
  from resolveCommit_fast [of sampleEnv "Some sampleUri" None sampleUri sampleGitUri sampleHeap
      "Some 6" "''abc123''" 0]
  obtain st where r: "resolveCommit sampleEnv sampleHeap None (Some sampleUri) (Some 6) = Inr (st, 0)"
    and u: "st_uri st = sampleUri"
    by (auto simp: sample_defs)
  have v: "\<not> truthyBool (showInView (callerArgs sampleHeap (Some 6)))"
    and g: "goBackCommand (callerArgs sampleHeap (Some 6)) = Some backItem"
    by (simp_all add: sample_defs)
  from C4_back_command [OF r v] m g v u
  have inbound: "goBackCommand (callerArgs sampleHeap (Some 6)) = Some backItem \<and>
   \<not> truthyBool (showInView (callerArgs sampleHeap (Some 6))) \<and>
   \<not> isBranchQuery (hd (events (execute sampleEnv sampleHeap None (Some sampleUri) (Some 6)))) \<and>
   (\<exists>cur l. CommitQuickPickShow 0 sampleUri (Some backItem) cur l
      \<in> set (events (execute sampleEnv sampleHeap None (Some sampleUri) (Some 6))))"
    by simp
  have r2: "resolveCommit sampleEnv sampleHeap None (Some sampleUri) (Some 2) =
      Inr (\<lparr>st_heap = sampleHeap\<lparr>args_at := sampleRequests (8 := sampleRequests 2),
               next_args := 9\<rparr>,
             st_trace = [FromUri sampleUri], st_args = 8, st_uri = sampleUri,
             st_repoPath = Some ''/r'', st_workingFileName = ''a.ts''\<rparr>, 0)"
    by (simp add: resolveCommit_def enter_def resolveSha_def findCommit_def needsLookup_def
        tryCatch_def state_defs sample_defs Let_def)
  have v2: "\<not> truthyBool (showInView (callerArgs sampleHeap (Some 2)))"
    by (simp add: sample_defs)
  let ?st2 = "\<lparr>st_heap = sampleHeap\<lparr>args_at := sampleRequests (8 := sampleRequests 2),
               next_args := 9\<rparr>,
             st_trace = [FromUri sampleUri], st_args = 8, st_uri = sampleUri,
             st_repoPath = Some ''/r'', st_workingFileName = ''a.ts''\<rparr>"
  have g2: "goBackCommand (callerArgs sampleHeap (Some 2)) = None"
    and p2: "commit_repoPath (commit_at sampleHeap 0) = ''/r''"
    and b2: "getBranch sampleEnv ''/r'' = Resolves (Some (GitBranch ''main''))"
    and u2: "toGitUri sampleEnv (getCommit (setWorkingFileName 0 ?st2) 0) =
      \<lparr>uri_fsPath = ''/r/a.ts'', uri_repoPath = Some ''/r'', uri_sha = Some ''abc123''\<rparr>"
    and d2: "strings_pad sampleEnv (glyph_Dash sampleEnv) 2 3 @ '' to '' @
      branch_name (GitBranch ''main'') @ '' history'' = ''  -    to main history''"
    by (simp_all add: sample_defs setWorkingFileName_def getCommit_def numeral_2_eq_2
        numeral_3_eq_3)
  note T = C4_back_command [OF r2 v2]
  from T g2 p2 have q2: "GetBranch ''/r''
      \<in> set (events (execute sampleEnv sampleHeap None (Some sampleUri) (Some 2)))"
    by simp
  from T have "goBackCommand (callerArgs sampleHeap (Some 2)) = None \<and>
        getBranch sampleEnv (commit_repoPath (commit_at sampleHeap 0)) =
          Resolves (Some (GitBranch ''main'')) \<longrightarrow>
      (\<exists>item cur l. CommitQuickPickShow 0 (st_uri ?st2) (Some item) cur l
          \<in> set (events (execute sampleEnv sampleHeap None (Some sampleUri) (Some 2))) \<and>
          item_command item = ShowQuickCurrentBranchHistory \<and>
          item_args item =
            [ArgGitUri (toGitUri sampleEnv (getCommit (setWorkingFileName 0 ?st2) 0))] \<and>
          item_description item =
            strings_pad sampleEnv (glyph_Dash sampleEnv) 2 3 @ '' to '' @
              branch_name (GitBranch ''main'') @ '' history'')"
    by blast
  with g2 p2 b2 u2 d2
  have "\<exists>item cur l. CommitQuickPickShow 0 sampleUri (Some item) cur l
      \<in> set (events (execute sampleEnv sampleHeap None (Some sampleUri) (Some 2))) \<and>
      item_command item = ShowQuickCurrentBranchHistory \<and>
      item_args item = [ArgGitUri \<lparr>uri_fsPath = ''/r/a.ts'', uri_repoPath = Some ''/r'',
        uri_sha = Some ''abc123''\<rparr>] \<and>
      item_description item = ''  -    to main history''"
    by simp
  with g2 b2 q2
  have found: "goBackCommand (callerArgs sampleHeap (Some 2)) = None \<and>
   getBranch sampleEnv ''/r'' = Resolves (Some (GitBranch ''main'')) \<and>
   GetBranch ''/r'' \<in> set (events (execute sampleEnv sampleHeap None (Some sampleUri) (Some 2))) \<and>
   (\<exists>item cur l. CommitQuickPickShow 0 sampleUri (Some item) cur l
      \<in> set (events (execute sampleEnv sampleHeap None (Some sampleUri) (Some 2))) \<and>
      item_command item = ShowQuickCurrentBranchHistory \<and>
      item_args item = [ArgGitUri \<lparr>uri_fsPath = ''/r/a.ts'', uri_repoPath = Some ''/r'',
        uri_sha = Some ''abc123''\<rparr>] \<and>
      item_description item = ''  -    to main history'')"
    by blast
  from inbound found show ?thesis by blast
qed

text \<open>
  C10. When the resolved commit \<open>c\<close> is the object the caller passed as \<open>commit\<close> and
  its \<open>workingFileName\<close> is undefined, the invocation writes that field of the caller's
  commit object; every other commit object and every arguments object that existed at the
  call (the caller's one among them, the command works on a copy) is unchanged.
\<close>

theorem C10_caller_commit_mutated:
  assumes "resolveCommit env h editor uri argp = Inr (st, c)"
    and "commit (callerArgs h argp) = Some c"
    and "commit_workingFileName (commit_at h c) = None"
  shows "commit_at (heap_out (execute env h editor uri argp)) c =
      (commit_at h c)\<lparr>commit_workingFileName := Some (st_workingFileName st)\<rparr> \<and>
    (\<forall>x. x \<noteq> c \<longrightarrow> commit_at (heap_out (execute env h editor uri argp)) x = commit_at h x) \<and>
    (\<forall>q<next_args h. args_at (heap_out (execute env h editor uri argp)) q = args_at h q)"
proof -
  from resolveCommit_Inr(5) [OF assms(1)] have g: "getCommit st = commit_at h"
    by (simp add: getCommit_def fun_eq_iff)
  from execute_commit_frame(2) [OF assms(1)] g assms(3)
  have "commit_at (heap_out (execute env h editor uri argp)) c =
      (commit_at h c)\<lparr>commit_workingFileName := Some (st_workingFileName st)\<rparr>"
    and "\<forall>x. x \<noteq> c \<longrightarrow> commit_at (heap_out (execute env h editor uri argp)) x = commit_at h x"
    by (simp_all add: setWorkingFileName_commit)
  with execute_args_frame [of h env editor uri argp] show ?thesis by blast
qed

theorem C10_witness:
  "commit (callerArgs sampleHeap (Some 2)) = Some 0 \<and>
   commit_workingFileName (commit_at sampleHeap 0) = None \<and>
   commit_at (heap_out (execute sampleEnv sampleHeap None (Some sampleUri) (Some 2))) 0 =
     sampleCommit\<lparr>commit_workingFileName := Some ''a.ts''\<rparr> \<and>
   commit_at (heap_out (execute sampleEnv sampleHeap None (Some sampleUri) (Some 2))) 1 =
     commit_at sampleHeap 1 \<and>
   args_at (heap_out (execute sampleEnv sampleHeap None (Some sampleUri) (Some 2))) 2 =
     args_at sampleHeap 2"
proof -
  have "resolveCommit sampleEnv sampleHeap None (Some sampleUri) (Some 2) =
      Inr (\<lparr>st_heap = sampleHeap\<lparr>args_at := sampleRequests (8 := sampleRequests 2),
               next_args := 9\<rparr>,
             st_trace = [FromUri sampleUri], st_args = 8, st_uri = sampleUri,
             st_repoPath = Some ''/r'', st_workingFileName = ''a.ts''\<rparr>, 0)"
    by (simp add: resolveCommit_def enter_def resolveSha_def findCommit_def needsLookup_def
        tryCatch_def state_defs sample_defs Let_def)
  from C10_caller_commit_mutated [OF this] show ?thesis
    by (simp add: sample_defs)
qed

text \<open>
  C2. Whenever a step shows the picker, the "return here" command \<open>cur\<close> it passes
  holds a reference \<open>a\<close> to the step's own request object, whose fields are the revision
  id, the commit, the cached log and the back command shown, and the caller's show-in-view
  flag. A later invocation, from the resulting store and with any arguments (the payload
  \<open>a\<close> itself included), works on a copy of its own: it leaves the object at \<open>a\<close>
  and the commit object as they were.
\<close>

theorem C2_return_here_snapshot:
  assumes "CommitQuickPickShow c u b cur l \<in> set (events (execute env h editor uri argp))"
  shows "\<exists>a s. item_command cur = ShowQuickCommitDetails \<and>
      item_args cur =
        [ArgGitUri (toGitUri env (commit_at (heap_out (execute env h editor uri argp)) c)),
         ArgRequest a] \<and>
      a < next_args (heap_out (execute env h editor uri argp)) \<and>
      args_at (heap_out (execute env h editor uri argp)) a =
        \<lparr>sha = Some s, commit = Some c, repoLog = l,
         showInView = showInView (callerArgs h argp), goBackCommand = b\<rparr> \<and>
      (\<forall>env' editor' uri' argp'.
         args_at (heap_out (execute env' (heap_out (execute env h editor uri argp))
             editor' uri' argp')) a =
           args_at (heap_out (execute env h editor uri argp)) a \<and>
         commit_at (heap_out (execute env' (heap_out (execute env h editor uri argp))
             editor' uri' argp')) c =
           commit_at (heap_out (execute env h editor uri argp)) c)"
proof -
  let ?r = "execute env h editor uri argp"
  let ?ev = "CommitQuickPickShow c u b cur l"
  obtain st c0 where rc: "resolveCommit env h editor uri argp = Inr (st, c0)"
  proof (cases "resolveCommit env h editor uri argp")
    case (Inl f)
    from resolveCommit_Inl(4) [OF Inl] execute_Inl [OF Inl] assms
    have "isResolveEvent ?ev" by auto
    then show ?thesis by simp
  next
    case (Inr p)
    then show ?thesis by (cases p) (auto intro: that)
  qed
  note R = resolveCommit_Inr [OF rc]
  let ?st1 = "setWorkingFileName c0 st"
  from R(9) have quiet: "\<forall>ev\<in>set (st_trace st). \<not> isPicker ev"
    by (auto dest: isResolveEvent_quiet)
  from execute_pickers [OF rc assms] have "?ev \<in> set (stepTrace (display env c0 st))"
    by simp
  from display_picker [OF this _ quiet] obtain st2
    where nv: "\<not> truthyBool (showInView (getArgs st))"
      and bg: "buildGoBack env c0 ?st1 = Continue st2"
      and ev: "?ev = CommitQuickPickShow c0 (st_uri st2) (goBackCommand (getArgs st2))
         (currentCommand env c0 st2) (repoLog (getArgs st2))"
    by auto
  note B = buildGoBack_Continue [OF bg]
  from ev have c: "c = c0" and b: "b = goBackCommand (getArgs st2)"
    and cur: "cur = currentCommand env c st2" and l: "l = repoLog (getArgs st2)"
    by simp_all
  from display_shown(2) [OF nv bg] execute_Inr(1) [OF rc]
  have hp: "heap_out ?r = st_heap st2" by simp
  from R(2) obtain s where s: "sha (getArgs st) = Some s" by auto
  let ?a = "st_args st2"
  have 1: "item_command cur = ShowQuickCommitDetails"
    and 2: "item_args cur = [ArgGitUri (toGitUri env (commit_at (heap_out ?r) c)), ArgRequest ?a]"
    using cur hp by (simp_all add: currentCommand_def getCommit_def)
  from buildGoBack_heap [of ?st1 env c0] bg have "next_args (st_heap st2) = next_args (st_heap st)"
    by (simp add: sameBut_def)
  with R(7) B(1) hp have 3: "?a < next_args (heap_out ?r)"
    by simp
  have "getArgs st2 = \<lparr>sha = Some s, commit = Some c, repoLog = l,
         showInView = showInView (callerArgs h argp), goBackCommand = b\<rparr>"
    using B(3,4,5) s R(1,3) c b l by (cases "getArgs st2") simp
  with hp have 4: "args_at (heap_out ?r) ?a = \<lparr>sha = Some s, commit = Some c, repoLog = l,
         showInView = showInView (callerArgs h argp), goBackCommand = b\<rparr>"
    by (simp add: getArgs_def)
  have 5: "args_at (heap_out (execute env' (heap_out ?r) editor' uri' argp')) ?a =
        args_at (heap_out ?r) ?a \<and>
      commit_at (heap_out (execute env' (heap_out ?r) editor' uri' argp')) c =
        commit_at (heap_out ?r) c" for env' editor' uri' argp'
  proof -
    from B(7) c hp have "commit_workingFileName (commit_at (heap_out ?r) c) \<noteq> None"
      using setWorkingFileName_defined [of c st] by (simp add: getCommit_def fun_eq_iff)
    with execute_commit_cases [of env' "heap_out ?r" editor' uri' argp' c]
      execute_args_frame [of "heap_out ?r" env' editor' uri' argp'] 3
    show ?thesis by auto
  qed
  from 1 2 3 4 5 show ?thesis by blast
qed


theorem C2_witness:
  "events (execute sampleEnv sampleHeap None (Some sampleUri) (Some 2)) ! 2
     \<in> set (events (execute sampleEnv sampleHeap None (Some sampleUri) (Some 2))) \<and>
   args_at (heap_out (execute sampleEnv
       (heap_out (execute sampleEnv sampleHeap None (Some sampleUri) (Some 2)))
       None (Some sampleUri) (Some 8))) 8 =
     args_at (heap_out (execute sampleEnv sampleHeap None (Some sampleUri) (Some 2))) 8 \<and>
   sha (args_at (heap_out (execute sampleEnv sampleHeap None (Some sampleUri) (Some 2))) 8) =
     Some ''abc123''"
proof -
  let ?r = "execute sampleEnv sampleHeap None (Some sampleUri) (Some 2)"
  have "\<exists>b cur x. events ?r ! 2 = CommitQuickPickShow 0 sampleUri b cur None \<and>
      item_args cur = [x, ArgRequest 8] \<and> length (events ?r) = 3"
    by (simp add: phase_defs state_defs sample_defs Let_def)
  then obtain b cur x where ev: "events ?r ! 2 = CommitQuickPickShow 0 sampleUri b cur None"
    and ia: "item_args cur = [x, ArgRequest 8]" and len: "length (events ?r) = 3"
    by blast
  from len have m: "events ?r ! 2 \<in> set (events ?r)"
    by simp
  with ev have "CommitQuickPickShow 0 sampleUri b cur None \<in> set (events ?r)"
    by simp
  from C2_return_here_snapshot [OF this] ia
  have "args_at (heap_out (execute sampleEnv (heap_out ?r) None (Some sampleUri) (Some 8))) 8 =
      args_at (heap_out ?r) 8"
    by auto
  moreover have "sha (args_at (heap_out ?r) 8) = Some ''abc123''"
    by (simp add: phase_defs state_defs sample_defs Let_def)
  ultimately show ?thesis using m by simp
qed



text \<open>
  C1, as amended. Let \<open>st1\<close> be the state at line 103 of an invocation that needs a lookup
  (no commit, or a file-scoped one) for the revision id \<open>s\<close> and holds a cached batch
  \<open>l\<close>. The batch is consulted by looking \<open>s\<close> up in it, whatever revision it was
  fetched for. If it does not contain \<open>s\<close> it is dropped and a fresh two-entry fetch
  anchored at \<open>s\<close> is issued, and only that fetch can produce the commit. If it contains
  \<open>s\<close>, the commit found there is the resolved one, the batch is kept, and no fetch is
  issued.
\<close>

theorem C1_cached_log_lookup:
  assumes "enter env h editor uri argp = Inr (g, st0)"
    and "resolveSha env editor g st0 = Inr st1"
    and "needsLookup st1"
    and "sha (getArgs st1) = Some s"
    and "repoLog (getArgs st1) = Some l"
  shows "(map_of (log_commits l) s = None \<longrightarrow>
       GetLog (st_repoPath st1) 2 (Some s) \<in> set (events (execute env h editor uri argp)) \<and>
       (\<forall>st c. resolveCommit env h editor uri argp = Inr (st, c) \<longrightarrow>
          repoLog (getArgs st) = None \<and>
          (\<exists>l'. getLog env (st_repoPath st1) 2 (Some s) = Resolves (Some l') \<and>
             map_of (log_commits l') s = Some c))) \<and>
    (\<forall>c. map_of (log_commits l) s = Some c \<longrightarrow>
       (\<exists>st. resolveCommit env h editor uri argp = Inr (st, c) \<and>
          repoLog (getArgs st) = Some l) \<and>
       (\<forall>ev\<in>set (events (execute env h editor uri argp)). \<not> isLogFetch ev))"
proof -
  let ?r = "execute env h editor uri argp"
  let ?st = "useRepoLog st1"
  from assms(3) have fc: "findCommit env st1 = fetchLog env ?st"
    by (simp add: findCommit_def)
  have miss: "GetLog (st_repoPath st1) 2 (Some s) \<in> set (events ?r) \<and>
       (\<forall>st c. resolveCommit env h editor uri argp = Inr (st, c) \<longrightarrow>
          repoLog (getArgs st) = None \<and>
          (\<exists>l'. getLog env (st_repoPath st1) 2 (Some s) = Resolves (Some l') \<and>
             map_of (log_commits l') s = Some c))"
    if m: "map_of (log_commits l) s = None"
  proof -
    from m assms(4,5) have dropped: "repoLog (getArgs ?st) = None"
      by (simp add: useRepoLog_args)
    from fetchLog_issued [OF dropped, of env] assms(4) fc
    have "GetLog (st_repoPath st1) 2 (Some s) \<in> set (stepTrace (findCommit env st1))"
      by simp
    with findCommit_events [OF assms(1,2)]
    have 1: "GetLog (st_repoPath st1) 2 (Some s) \<in> set (events ?r)"
      by blast
    have 2: "repoLog (getArgs st) = None \<and>
          (\<exists>l'. getLog env (st_repoPath st1) 2 (Some s) = Resolves (Some l') \<and>
             map_of (log_commits l') s = Some c)"
      if rc: "resolveCommit env h editor uri argp = Inr (st, c)" for st c
    proof -
      from rc assms(1,2) have "findCommit env st1 = Continue st" and c: "commit (getArgs st) = Some c"
        by (auto simp: resolveCommit_def split: sum.splits option.splits)
      with fc have "fetchLog env ?st = Continue st" by simp
      from fetchLog_ContinueD [OF this dropped] assms(4) c show ?thesis
        by auto
    qed
    from 1 2 show ?thesis by blast
  qed
  have hit: "(\<exists>st. resolveCommit env h editor uri argp = Inr (st, c) \<and>
          repoLog (getArgs st) = Some l) \<and>
       (\<forall>ev\<in>set (events ?r). \<not> isLogFetch ev)"
    if m: "map_of (log_commits l) s = Some c" for c
  proof -
    from m assms(4,5) have a: "getArgs ?st = (getArgs st1)\<lparr>commit := Some c\<rparr>"
      by (simp add: useRepoLog_args)
    with assms(5) have "fetchLog env ?st = Continue ?st"
      by (simp add: fetchLog_def)
    with fc assms(1,2) a have rc: "resolveCommit env h editor uri argp = Inr (?st, c)"
      by (simp add: resolveCommit_def tryCatch_def)
    from a assms(5) have kept: "repoLog (getArgs ?st) = Some l"
      by simp
    from execute_display_events [OF rc] resolveSha_no_fetch [OF assms(1,2)]
    have "\<forall>ev\<in>set (events ?r). \<not> isLogFetch ev"
      by (auto dest: isDisplayEvent_quiet)
    with rc kept show ?thesis by blast
  qed
  from miss hit show ?thesis by blast
qed

theorem C1_witness:
  "sha (callerArgs sampleHeap (Some 7)) = Some ''deadbeef'' \<and>
   repoLog (callerArgs sampleHeap (Some 7)) = Some cachedLog \<and>
   map_of (log_commits cachedLog) ''deadbeef'' = None \<and>
   GetLog (Some ''/r'') 2 (Some ''deadbeef'')
     \<in> set (events (execute sampleEnv sampleHeap None (Some sampleUri) (Some 7)))"
proof -
  from enter_ok [of sampleEnv "Some sampleUri" None sampleUri sampleGitUri sampleHeap "Some 7"]
  obtain st where e: "enter sampleEnv sampleHeap None (Some sampleUri) (Some 7) = Inr (sampleGitUri, st)"
    by (auto simp: sample_defs)
  note E = enter_Inr [OF e]
  from E(3) have a: "getArgs st = emptyArgs\<lparr>sha := Some ''deadbeef'', repoLog := Some cachedLog\<rparr>"
    by (simp add: callerArgs_def sampleHeap_def sampleRequests_def)
  then have r: "resolveSha sampleEnv None sampleGitUri st = Inr st"
    by (simp add: resolveSha_has_sha emptyArgs_def)
  from a have n: "needsLookup st" and s: "sha (getArgs st) = Some ''deadbeef''"
    and l: "repoLog (getArgs st) = Some cachedLog"
    by (simp_all add: needsLookup_def emptyArgs_def)
  from C1_cached_log_lookup [OF e r n s l] E(2) show ?thesis
    by (simp add: sample_defs)
qed

text \<open>
  The claim as stated fails: request 4 asks for \<open>R2\<close> and holds the batch fetched for
  \<open>R\<close>, which happens to contain \<open>R2\<close>. The commit shown in the picker is the one found
  in that batch, the batch is kept, and no fetch is issued.
\<close>

theorem C1_counterexample:
  "log_sha cachedLog = Some ''R'' \<and>
   sha (callerArgs sampleHeap (Some 4)) = Some ''R2'' \<and>
   commit (callerArgs sampleHeap (Some 4)) = None \<and>
   repoLog (callerArgs sampleHeap (Some 4)) = Some cachedLog \<and>
   map_of (log_commits cachedLog) ''R2'' = Some 3 \<and>
   map isLogFetch (events (execute sampleEnv sampleHeap None (Some sampleUri) (Some 4))) =
     [False, False, False] \<and>
   map isPicker (events (execute sampleEnv sampleHeap None (Some sampleUri) (Some 4))) =
     [False, False, True] \<and>
   commit (args_at (heap_out (execute sampleEnv sampleHeap None (Some sampleUri) (Some 4))) 8) =
     Some 3 \<and>
   repoLog (args_at (heap_out (execute sampleEnv sampleHeap None (Some sampleUri) (Some 4))) 8) =
     Some cachedLog"
  by (simp add: phase_defs state_defs sample_defs Let_def)

text \<open>
  C3, as amended. Whatever the collaborators called inside the two \<^verbatim>\<open>try\<close> blocks do
  (blame lookup, log fetch, branch lookup, search view, picker; throwing and rejecting
  included), the invocation resolves, provided that the uri resolution of line 68
  completes, that no promise returned without \<^verbatim>\<open>await\<close> rejects (the message functions,
  the picked action, the dispatched file details command), and that neither
  \<^verbatim>\<open>Logger.error\<close> nor the generic error message throws in the \<^verbatim>\<open>catch\<close> clause.
  Then every exception raised inside a \<^verbatim>\<open>try\<close> block is absorbed: it is logged, the
  generic error message is the last thing shown, and the invocation resolves to what that
  message resolves to.
\<close>

theorem C3_absorbed_failures:
  assumes "\<forall>u. getCommandUri env uri editor = Some u \<longrightarrow> (\<exists>g. fromUri env u = Resolves g)"
    and "\<forall>k m e. showMessage env k m \<noteq> Rejects e"
    and "\<forall>e c x. loggerError env e c x = None"
    and "\<forall>m e. showMessage env GenericError m \<noteq> Throws e"
    and "\<forall>it e. pickExecute env it \<noteq> Rejects e"
    and "\<forall>n g a e. executeCommand env n g a \<noteq> Rejects e"
  shows "(\<exists>v. outcome (execute env h editor uri argp) = Resolved v) \<and>
    (\<forall>ev\<in>set (events (execute env h editor uri argp)). \<forall>e. raised env ev = Some e \<longrightarrow>
       (\<exists>ctx. LoggerError e className ctx \<in> set (events (execute env h editor uri argp)))) \<and>
    (\<forall>e cls ctx. LoggerError e cls ctx \<in> set (events (execute env h editor uri argp)) \<longrightarrow>
       (\<exists>tr v. events (execute env h editor uri argp) =
            tr @ [LoggerError e cls ctx, ShowMessage GenericError unableMessage] \<and>
          showMessage env GenericError unableMessage = Resolves v \<and>
          outcome (execute env h editor uri argp) = Resolved v))"
proof -
  let ?r = "execute env h editor uri argp"
  from assms(3,4) have handler: "(\<forall>e c x. loggerError env e c x = None) \<and>
      (\<forall>m e. showMessage env GenericError m \<noteq> Throws e)"
    by blast
  have "isResolved (outcome ?r)"
  proof (cases "resolveCommit env h editor uri argp")
    case (Inl f)
    from resolveCommit_resolves [OF assms(1,2) handler Inl] execute_Inl [OF Inl]
    show ?thesis by simp
  next
    case (Inr p)
    obtain st c where p: "p = (st, c)" by (cases p)
    show ?thesis
    proof (cases "tryCatch env (display env c st)")
      case (Inl f)
      from tryCatch_resolves [OF assms(2) handler _ Inl] display_resolves [OF assms(5,6)]
      have "isResolved (outcome f)" by blast
      with Inl Inr p show ?thesis by (simp add: execute_def)
    next
      case (Inr st1)
      with \<open>resolveCommit env h editor uri argp = Inr p\<close> p show ?thesis
        by (simp add: execute_def)
    qed
  qed
  then have resolves: "\<exists>v. outcome ?r = Resolved v"
    by (cases "outcome ?r") simp_all
  from assms(2,4) obtain v0 where v0: "showMessage env GenericError unableMessage = Resolves v0"
    by (cases "showMessage env GenericError unableMessage") auto
  then have m: "quiet env (ShowMessage GenericError unableMessage)"
    by (simp add: quiet_def)
  from execute_absorbed [OF assms(3), of h editor uri argp]
  consider (calm) "\<forall>ev\<in>set (events ?r). quiet env ev"
    | (caught) tr ev e ctx where
        "events ?r = tr @ [ev, LoggerError e className ctx,
           ShowMessage GenericError unableMessage]"
        "\<forall>x\<in>set tr. quiet env x" "raised env ev = Some e" "\<not> isLoggerError ev"
        "outcome ?r = Resolved v0"
    using v0 by (auto simp: absorbed_def)
  then have "(\<forall>ev\<in>set (events ?r). \<forall>e. raised env ev = Some e \<longrightarrow>
       (\<exists>ctx. LoggerError e className ctx \<in> set (events ?r))) \<and>
    (\<forall>e cls ctx. LoggerError e cls ctx \<in> set (events ?r) \<longrightarrow>
       (\<exists>tr v. events ?r =
            tr @ [LoggerError e cls ctx, ShowMessage GenericError unableMessage] \<and>
          showMessage env GenericError unableMessage = Resolves v \<and>
          outcome ?r = Resolved v))"
  proof cases
    case calm
    then show ?thesis by (auto simp: quiet_def)
  next
    case caught
    have logged: "\<exists>ctx'. LoggerError e' className ctx' \<in> set (events ?r)"
      if "ev' \<in> set (events ?r)" and "raised env ev' = Some e'" for ev' e'
    proof -
      from that(1) caught(1) have "ev' \<in> set tr \<or> ev' = ev \<or>
          ev' = LoggerError e className ctx \<or> ev' = ShowMessage GenericError unableMessage"
        by auto
      with that(2) caught(2,3) m have "e' = e"
        by (auto simp: quiet_def)
      with caught(1) show ?thesis by auto
    qed
    have last: "\<exists>tr' v. events ?r =
            tr' @ [LoggerError e' cls ctx', ShowMessage GenericError unableMessage] \<and>
          showMessage env GenericError unableMessage = Resolves v \<and> outcome ?r = Resolved v"
      if "LoggerError e' cls ctx' \<in> set (events ?r)" for e' cls ctx'
    proof -
      from that caught(1) have "LoggerError e' cls ctx' \<in> set tr \<or> LoggerError e' cls ctx' = ev \<or>
          LoggerError e' cls ctx' = LoggerError e className ctx"
        by auto
      with caught(2,4) have "LoggerError e' cls ctx' = LoggerError e className ctx"
        by (auto simp: quiet_def)
      with caught(1) have "events ?r =
          (tr @ [ev]) @ [LoggerError e' cls ctx', ShowMessage GenericError unableMessage]"
        by simp
      with v0 caught(5) show ?thesis by blast
    qed
    from logged last show ?thesis by blast
  qed
  with resolves show ?thesis by blast
qed

theorem C3_witness:
  "raised failingLogEnv (GetLog (Some ''/r'') 2 (Some ''deadbeef'')) = Some (Exn ''git failed'') \<and>
   GetLog (Some ''/r'') 2 (Some ''deadbeef'')
     \<in> set (events (execute failingLogEnv sampleHeap None (Some sampleUri) (Some 1))) \<and>
   (\<exists>ctx. LoggerError (Exn ''git failed'') className ctx
     \<in> set (events (execute failingLogEnv sampleHeap None (Some sampleUri) (Some 1)))) \<and>
   (\<exists>v. outcome (execute failingLogEnv sampleHeap None (Some sampleUri) (Some 1)) = Resolved v)"
proof -
  have r: "raised failingLogEnv (GetLog (Some ''/r'') 2 (Some ''deadbeef'')) =
      Some (Exn ''git failed'')"
    by (simp add: sample_defs)
  have g: "GetLog (Some ''/r'') 2 (Some ''deadbeef'')
     \<in> set (events (execute failingLogEnv sampleHeap None (Some sampleUri) (Some 1)))"
    by (simp add: phase_defs state_defs sample_defs Let_def)
  have "(\<forall>u. getCommandUri failingLogEnv (Some sampleUri) None = Some u \<longrightarrow>
        (\<exists>g. fromUri failingLogEnv u = Resolves g)) \<and>
      (\<forall>k m e. showMessage failingLogEnv k m \<noteq> Rejects e) \<and>
      (\<forall>e c x. loggerError failingLogEnv e c x = None) \<and>
      (\<forall>m e. showMessage failingLogEnv GenericError m \<noteq> Throws e) \<and>
      (\<forall>it e. pickExecute failingLogEnv it \<noteq> Rejects e) \<and>
      (\<forall>n g a e. executeCommand failingLogEnv n g a \<noteq> Rejects e)"
    by (simp add: sample_defs)
  then have "(\<exists>v. outcome (execute failingLogEnv sampleHeap None (Some sampleUri) (Some 1)) =
        Resolved v) \<and>
    (\<forall>ev\<in>set (events (execute failingLogEnv sampleHeap None (Some sampleUri) (Some 1))).
       \<forall>e. raised failingLogEnv ev = Some e \<longrightarrow>
       (\<exists>ctx. LoggerError e className ctx
          \<in> set (events (execute failingLogEnv sampleHeap None (Some sampleUri) (Some 1)))))"
    using C3_absorbed_failures [of failingLogEnv "Some sampleUri" None sampleHeap "Some 1"]
    by blast
  with r g show ?thesis by blast
qed

text \<open>
  The claim as stated fails: \<^verbatim>\<open>GitUri.fromUri\<close> is awaited at line 68, before the first
  \<^verbatim>\<open>try\<close> block, so its rejection is the rejection of the invocation.
\<close>

theorem C3_counterexample:
  "fromUri failingUriEnv sampleUri = Rejects (Exn ''no repository'') \<and>
   outcome (execute failingUriEnv sampleHeap None (Some sampleUri) (Some 1)) =
     Rejected (Exn ''no repository'')"
  by (simp add: phase_defs state_defs sample_defs Let_def)

end
